theory Spec2Isabelle
  imports Main "HOL-Library.Word"
begin

section \<open>Strings of the JavaScript runtime\<close>

text \<open>
  A JavaScript string is a sequence of UTF-16 code units, and \<^verbatim>\<open>length\<close> counts
  code units. The literals of the program are ASCII and are written through \<open>js\<close>.
\<close>

type_synonym jsstring = "16 word list"

definition js :: "string \<Rightarrow> jsstring" where
  "js cs = map of_char cs"

text \<open>
  \<^verbatim>\<open>String.prototype.trim\<close> removes WhiteSpace and LineTerminator code points from
  both ends (ECMAScript, TrimString): TAB, LF, VT, FF, CR, SPACE, NBSP, U+1680,
  U+2000 .. U+200A, LS, PS, U+202F, U+205F, U+3000 and the BOM U+FEFF. All of them
  are single code units.
\<close>

definition isWhiteSpace :: "16 word \<Rightarrow> bool" where
  "isWhiteSpace c =
     (c = 0x09 \<or> c = 0x0A \<or> c = 0x0B \<or> c = 0x0C \<or> c = 0x0D \<or> c = 0x20 \<or> c = 0xA0 \<or>
      c = 0x1680 \<or> (0x2000 \<le> c \<and> c \<le> 0x200A) \<or> c = 0x2028 \<or> c = 0x2029 \<or>
      c = 0x202F \<or> c = 0x205F \<or> c = 0x3000 \<or> c = 0xFEFF)"

definition trimStart :: "jsstring \<Rightarrow> jsstring" where
  "trimStart s = dropWhile isWhiteSpace s"

definition trimEnd :: "jsstring \<Rightarrow> jsstring" where
  "trimEnd s = rev (dropWhile isWhiteSpace (rev s))"

definition trim :: "jsstring \<Rightarrow> jsstring" where
  "trim s = trimEnd (trimStart s)"

section \<open>Numbers as task ids\<close>

text \<open>
  Task ids are the values of \<^verbatim>\<open>Date.now()\<close>: integers far inside the range, up
  to \<open>2 ^ 53\<close>, in which every integer is a JavaScript number. They are modelled as
  \<open>int\<close>, every integer standing for itself. \<open>Number_toString\<close> is the conversion
  that storing a number in a \<^verbatim>\<open>dataset\<close> property and \<^verbatim>\<open>JSON.stringify\<close>
  apply (ECMAScript, Number::toString): below \<open>10 ^ 21\<close> the decimal digits; from
  \<open>10 ^ 21\<close> on the first digit, after a point the following digits up to the last one
  that is not \<^verbatim>\<open>0\<close>, and \<^verbatim>\<open>e+\<close> with the number of digits after the first, as
  in \<^verbatim>\<open>1e+21\<close> and \<^verbatim>\<open>1.5e+21\<close>. From \<open>2 ^ 53\<close> on a JavaScript number carries
  53 bits of its integer and the runtime prints the shortest run of digits that reads back
  as the same number; the model prints the digits of the integer, which are the same ones
  for a number of up to 15 significant digits.
\<close>

definition digitChar :: "nat \<Rightarrow> 16 word" where
  "digitChar d = of_nat (48 + d)"

fun natDigits :: "nat \<Rightarrow> jsstring" where
  "natDigits n = (if n < 10 then [digitChar n] else natDigits (n div 10) @ [digitChar (n mod 10)])"

declare natDigits.simps [simp del]

definition dropTrailingZeros :: "jsstring \<Rightarrow> jsstring" where
  "dropTrailingZeros ds = rev (dropWhile (\<lambda>c. c = 0x30) (rev ds))"

definition fractionPart :: "jsstring \<Rightarrow> jsstring" where
  "fractionPart ds = (if dropTrailingZeros ds = [] then [] else 0x2E # dropTrailingZeros ds)"

definition unsignedToString :: "nat \<Rightarrow> jsstring" where
  "unsignedToString m =
     (if m < 10 ^ 21 then natDigits m
      else case natDigits m of
             [] \<Rightarrow> []
           | d # ds \<Rightarrow> d # fractionPart ds @ [0x65, 0x2B] @ natDigits (length ds))"

definition Number_toString :: "int \<Rightarrow> jsstring" where
  "Number_toString n =
     (if n < 0 then 0x2D # unsignedToString (nat (- n)) else unsignedToString (nat n))"

text \<open>
  \<^verbatim>\<open>parseInt(string)\<close> with no radix: leading white space is skipped, a sign is read,
  a \<^verbatim>\<open>0x\<close> or \<^verbatim>\<open>0X\<close> prefix selects radix 16, and the longest prefix of digits is
  the value. \<open>None\<close> is \<^verbatim>\<open>NaN\<close> (no digit).
\<close>

definition digitValue :: "nat \<Rightarrow> 16 word \<Rightarrow> nat option" where
  "digitValue radix c =
     (let v = (if 0x30 \<le> c \<and> c \<le> 0x39 then Some (unat c - 48)
               else if 0x61 \<le> c \<and> c \<le> 0x7A then Some (unat c - 87)
               else if 0x41 \<le> c \<and> c \<le> 0x5A then Some (unat c - 55)
               else None)
      in case v of None \<Rightarrow> None | Some d \<Rightarrow> if d < radix then Some d else None)"

fun digitsValue :: "nat \<Rightarrow> nat \<Rightarrow> jsstring \<Rightarrow> nat" where
  "digitsValue radix acc [] = acc"
| "digitsValue radix acc (c # cs) =
     (case digitValue radix c of
        None \<Rightarrow> acc
      | Some d \<Rightarrow> digitsValue radix (acc * radix + d) cs)"

definition parseDigits :: "nat \<Rightarrow> jsstring \<Rightarrow> nat option" where
  "parseDigits radix s =
     (case s of
        [] \<Rightarrow> None
      | c # cs \<Rightarrow> (case digitValue radix c of
                     None \<Rightarrow> None
                   | Some d \<Rightarrow> Some (digitsValue radix 0 s)))"

definition parseUnsigned :: "jsstring \<Rightarrow> nat option" where
  "parseUnsigned s =
     (case s of
        a # b # rest \<Rightarrow>
          (if a = 0x30 \<and> (b = 0x78 \<or> b = 0x58) then parseDigits 16 rest
           else parseDigits 10 s)
      | _ \<Rightarrow> parseDigits 10 s)"

definition parseInt :: "jsstring \<Rightarrow> int option" where
  "parseInt s =
     (case trimStart s of
        [] \<Rightarrow> None
      | c # cs \<Rightarrow>
          (if c = 0x2D then map_option (\<lambda>n. - int n) (parseUnsigned cs)
           else if c = 0x2B then map_option int (parseUnsigned cs)
           else map_option int (parseUnsigned (c # cs))))"

section \<open>Tasks and the state of the page\<close>

record task =
  task_id :: int
  title :: jsstring
  description :: jsstring
  completed :: bool

datatype handler = AddTask | UpdateTask

datatype display = DisplayUnset | DisplayNone | DisplayBlock

text \<open>
  The variables of the script and the parts of the page and of the browser it reads and
  writes: the \<^verbatim>\<open>tasks\<close> array, the dirty flag, the item \<^verbatim>\<open>'tasks'\<close> of
  \<^verbatim>\<open>localStorage\<close>, the two form fields, the button (text, \<^verbatim>\<open>disabled\<close>,
  \<^verbatim>\<open>dataset.editingId\<close>), the error label's \<^verbatim>\<open>style.display\<close>, whether the title
  field has the focus, and the \<^verbatim>\<open>submit\<close> listeners of the form in registration order.
  The table drawn by \<^verbatim>\<open>renderTasks\<close> is presentation and is not modelled; the markup
  of the page is not part of the sources, and a form field is taken to hold the string
  assigned to it and to be empty after \<^verbatim>\<open>reset()\<close>.
\<close>

record state =
  tasks :: "task list"
  isTitleInputDirty :: bool
  storage :: "jsstring option"
  titleValue :: jsstring
  descriptionValue :: jsstring
  buttonText :: jsstring
  buttonDisabled :: bool
  editingId :: "jsstring option"
  errorDisplay :: display
  titleFocused :: bool
  submitListeners :: "handler list"

section \<open>JSON.stringify on the task array\<close>

text \<open>
  \<^verbatim>\<open>JSON.stringify\<close> of an array of task objects, with no indentation. A string is
  quoted by QuoteJSONString: the short escapes for BS, TAB, LF, FF, CR, the quote and
  the backslash, \<^verbatim>\<open>\uXXXX\<close> (lower-case hexadecimal) for the other code units below
  SPACE and for a surrogate that is not part of a pair, everything else as it is.
\<close>

definition hexChar :: "nat \<Rightarrow> 16 word" where
  "hexChar d = (if d < 10 then of_nat (48 + d) else of_nat (87 + d))"

definition unicodeEscape :: "16 word \<Rightarrow> jsstring" where
  "unicodeEscape c =
     [0x5C, 0x75, hexChar (unat c div 4096), hexChar (unat c div 256 mod 16),
      hexChar (unat c div 16 mod 16), hexChar (unat c mod 16)]"

definition isLeadSurrogate :: "16 word \<Rightarrow> bool" where
  "isLeadSurrogate c = (0xD800 \<le> c \<and> c \<le> 0xDBFF)"

definition isTrailSurrogate :: "16 word \<Rightarrow> bool" where
  "isTrailSurrogate c = (0xDC00 \<le> c \<and> c \<le> 0xDFFF)"

definition quoteUnit :: "16 word \<Rightarrow> jsstring" where
  "quoteUnit c =
     (if c = 0x08 then [0x5C, 0x62]
      else if c = 0x09 then [0x5C, 0x74]
      else if c = 0x0A then [0x5C, 0x6E]
      else if c = 0x0C then [0x5C, 0x66]
      else if c = 0x0D then [0x5C, 0x72]
      else if c = 0x22 then [0x5C, 0x22]
      else if c = 0x5C then [0x5C, 0x5C]
      else if c < 0x20 \<or> isLeadSurrogate c \<or> isTrailSurrogate c then unicodeEscape c
      else [c])"

fun quoteBody :: "jsstring \<Rightarrow> jsstring" where
  "quoteBody [] = []"
| "quoteBody [c] = quoteUnit c"
| "quoteBody (c # d # cs) =
     (if isLeadSurrogate c \<and> isTrailSurrogate d then c # d # quoteBody cs
      else quoteUnit c @ quoteBody (d # cs))"

definition QuoteJSONString :: "jsstring \<Rightarrow> jsstring" where
  "QuoteJSONString s = 0x22 # quoteBody s @ [0x22]"

definition serializeTask :: "task \<Rightarrow> jsstring" where
  "serializeTask t =
     js ''{\"id\":'' @ Number_toString (task_id t) @
     js '',\"title\":'' @ QuoteJSONString (title t) @
     js '',\"description\":'' @ QuoteJSONString (description t) @
     js '',\"completed\":'' @ (if completed t then js ''true'' else js ''false'') @
     js ''}''"

fun serializeElements :: "task list \<Rightarrow> jsstring" where
  "serializeElements [] = []"
| "serializeElements [t] = serializeTask t"
| "serializeElements (t # u # ts) = serializeTask t @ 0x2C # serializeElements (u # ts)"

definition JSON_stringify :: "task list \<Rightarrow> jsstring" where
  "JSON_stringify ts = 0x5B # serializeElements ts @ [0x5D]"

section \<open>The script\<close>

subsection \<open>Persistence and validation\<close>

text \<open>
  \<^verbatim>\<open>saveTasks\<close>: \<^verbatim>\<open>localStorage.setItem('tasks', JSON.stringify(tasks))\<close>. The write
  is taken to succeed (the storage quota is not modelled).
\<close>

definition saveTasks :: "state \<Rightarrow> state" where
  "saveTasks s = s\<lparr>storage := Some (JSON_stringify (tasks s))\<rparr>"

text \<open>
  \<^verbatim>\<open>validateTitle\<close>, the same text in \<^verbatim>\<open>js/formValidation.js\<close> and in
  \<^verbatim>\<open>script.js\<close>: it returns \<^verbatim>\<open>isValid\<close> and sets the error label and the button.
\<close>

definition validateTitle :: "state \<Rightarrow> bool \<times> state" where
  "validateTitle s =
     (let title = trim (titleValue s);
          isValid = (length title \<ge> 5 \<and> length title \<le> 50);
          s1 = (if isTitleInputDirty s
                then (if \<not> isValid then s\<lparr>errorDisplay := DisplayBlock\<rparr>
                      else s\<lparr>errorDisplay := DisplayNone\<rparr>)
                else s\<lparr>errorDisplay := DisplayNone\<rparr>)
      in (isValid, s1\<lparr>buttonDisabled := \<not> isValid\<rparr>))"

subsection \<open>Listeners of the title field\<close>

definition onTitleInput :: "jsstring \<Rightarrow> state \<Rightarrow> state" where
  "onTitleInput v s =
     (let s0 = s\<lparr>titleValue := v\<rparr>;
          s1 = (if length (trim (titleValue s0)) > 0 then s0\<lparr>isTitleInputDirty := True\<rparr>
                else if \<not> isTitleInputDirty s0 then s0\<lparr>errorDisplay := DisplayNone\<rparr>
                else s0)
      in snd (validateTitle s1))"

definition onTitleBlur :: "state \<Rightarrow> state" where
  "onTitleBlur s = snd (validateTitle (s\<lparr>titleFocused := False, isTitleInputDirty := True\<rparr>))"

definition onTitleFocus :: "state \<Rightarrow> state" where
  "onTitleFocus s =
     (if \<not> isTitleInputDirty s \<and> trim (titleValue s) = [] then s\<lparr>errorDisplay := DisplayNone\<rparr>
      else s)"

text \<open>\<^verbatim>\<open>taskTitleInput.focus()\<close>: the focus listener runs when the field gains the focus.\<close>

definition focusTitle :: "state \<Rightarrow> state" where
  "focusTitle s = (if titleFocused s then s else onTitleFocus (s\<lparr>titleFocused := True\<rparr>))"

text \<open>The description field has no listener: typing only changes its value.\<close>

definition onDescriptionInput :: "jsstring \<Rightarrow> state \<Rightarrow> state" where
  "onDescriptionInput v s = s\<lparr>descriptionValue := v\<rparr>"

definition resetForm :: "state \<Rightarrow> state" where
  "resetForm s = s\<lparr>titleValue := [], descriptionValue := []\<rparr>"

subsection \<open>Listener registration\<close>

definition addEventListener :: "handler \<Rightarrow> handler list \<Rightarrow> handler list" where
  "addEventListener h hs = (if h \<in> set hs then hs else hs @ [h])"

definition removeEventListener :: "handler \<Rightarrow> handler list \<Rightarrow> handler list" where
  "removeEventListener h hs = removeAll h hs"

subsection \<open>The operations of \<^verbatim>\<open>script.js\<close>\<close>

text \<open>
  \<^verbatim>\<open>Array.prototype.findIndex\<close>: the first index whose element satisfies the
  predicate; \<open>None\<close> is \<^verbatim>\<open>-1\<close>.
\<close>

fun findIndex :: "('a \<Rightarrow> bool) \<Rightarrow> 'a list \<Rightarrow> nat option" where
  "findIndex P [] = None"
| "findIndex P (x # xs) = (if P x then Some 0 else map_option Suc (findIndex P xs))"

text \<open>\<^verbatim>\<open>addTask\<close>; \<open>now\<close> is the value \<^verbatim>\<open>Date.now()\<close> returns in this call.\<close>

definition addTask :: "int \<Rightarrow> state \<Rightarrow> state" where
  "addTask now s =
     (let (ok, s2) = validateTitle (s\<lparr>isTitleInputDirty := True\<rparr>)
      in if \<not> ok then s2
         else
           let newTask = \<lparr>task_id = now, title = trim (titleValue s2),
                          description = trim (descriptionValue s2), completed = False\<rparr>;
               s3 = saveTasks (s2\<lparr>tasks := tasks s2 @ [newTask]\<rparr>);
               s4 = focusTitle ((resetForm s3)\<lparr>buttonDisabled := True\<rparr>)
           in snd (validateTitle (s4\<lparr>isTitleInputDirty := False\<rparr>)))"

definition editTask :: "int \<Rightarrow> state \<Rightarrow> state" where
  "editTask i s =
     (case find (\<lambda>t. task_id t = i) (tasks s) of
        None \<Rightarrow> s
      | Some taskToEdit \<Rightarrow>
          let s1 = s\<lparr>titleValue := title taskToEdit,
                     descriptionValue := description taskToEdit,
                     buttonText := js ''Actualizar Tarea'',
                     editingId := Some (Number_toString i),
                     isTitleInputDirty := True\<rparr>;
              s2 = snd (validateTitle s1)
          in s2\<lparr>submitListeners :=
                  addEventListener UpdateTask (removeEventListener AddTask (submitListeners s2))\<rparr>)"

text \<open>
  \<^verbatim>\<open>parseInt(addTaskButton.dataset.editingId)\<close>: a missing property is
  \<^verbatim>\<open>undefined\<close>, which \<^verbatim>\<open>parseInt\<close> converts to the string \<^verbatim>\<open>"undefined"\<close>.
\<close>

definition parsedEditingId :: "state \<Rightarrow> int option" where
  "parsedEditingId s =
     (case editingId s of None \<Rightarrow> parseInt (js ''undefined'') | Some v \<Rightarrow> parseInt v)"

definition updateTask :: "state \<Rightarrow> state" where
  "updateTask s =
     (let (ok, s2) = validateTitle (s\<lparr>isTitleInputDirty := True\<rparr>)
      in if \<not> ok then s2
         else
           let eid = parsedEditingId s2
           in case findIndex (\<lambda>t. Some (task_id t) = eid) (tasks s2) of
                None \<Rightarrow> s2
              | Some taskIndex \<Rightarrow>
                  let s3 = s2\<lparr>tasks := (tasks s2)
                             [taskIndex := (tasks s2 ! taskIndex)\<lparr>title := trim (titleValue s2)\<rparr>]\<rparr>;
                      s4 = s3\<lparr>tasks := (tasks s3)
                             [taskIndex := (tasks s3 ! taskIndex)
                                \<lparr>description := trim (descriptionValue s3)\<rparr>]\<rparr>;
                      s5 = saveTasks s4;
                      s6 = (resetForm s5)\<lparr>buttonText := js ''Agregar Tarea'', editingId := None,
                                           buttonDisabled := True\<rparr>;
                      s7 = focusTitle s6;
                      s8 = snd (validateTitle (s7\<lparr>isTitleInputDirty := False\<rparr>))
                  in s8\<lparr>submitListeners :=
                          addEventListener AddTask
                            (removeEventListener UpdateTask (submitListeners s8))\<rparr>)"

definition deleteTask :: "int \<Rightarrow> state \<Rightarrow> state" where
  "deleteTask i s = saveTasks (s\<lparr>tasks := filter (\<lambda>t. task_id t \<noteq> i) (tasks s)\<rparr>)"

definition toggleCompleteTask :: "int \<Rightarrow> state \<Rightarrow> state" where
  "toggleCompleteTask i s =
     (case findIndex (\<lambda>t. task_id t = i) (tasks s) of
        None \<Rightarrow> s
      | Some k \<Rightarrow>
          saveTasks (s\<lparr>tasks := (tasks s)[k := (tasks s ! k)\<lparr>completed := \<not> completed (tasks s ! k)\<rparr>]\<rparr>))"

subsection \<open>Dispatch of a \<^verbatim>\<open>submit\<close> event\<close>

text \<open>
  The event goes to the listeners registered when the dispatch starts, in registration
  order; one that an earlier listener removed is skipped, and one added during the
  dispatch is not called.
\<close>

definition runHandler :: "handler \<Rightarrow> int \<Rightarrow> state \<Rightarrow> state" where
  "runHandler h now s = (case h of AddTask \<Rightarrow> addTask now s | UpdateTask \<Rightarrow> updateTask s)"

fun dispatch :: "handler list \<Rightarrow> int \<Rightarrow> state \<Rightarrow> state" where
  "dispatch [] now s = s"
| "dispatch (h # hs) now s =
     dispatch hs now (if h \<in> set (submitListeners s) then runHandler h now s else s)"

definition submit :: "int \<Rightarrow> state \<Rightarrow> state" where
  "submit now s = dispatch (submitListeners s) now s"

section \<open>JSON.parse\<close>

text \<open>
  \<^verbatim>\<open>JSON.parse\<close> is part of the runtime. It is modelled in two passes over the code
  units of the text: the tokens of the JSON grammar, then a stack machine that builds the
  value. A text that is not JSON makes \<^verbatim>\<open>JSON.parse\<close> throw a \<^verbatim>\<open>SyntaxError\<close>.
\<close>

datatype token =
  TLBracket | TRBracket | TLBrace | TRBrace | TComma | TColon
| TString jsstring | TNumber bool nat int | TTrue | TFalse | TNull

text \<open>
  A number \<open>JNumber neg m e\<close> is \<open>m * 10 ^ e\<close>, negated when \<open>neg\<close> holds. The members
  of an object are kept in the order of the text.
\<close>

datatype json =
  JNull | JBool bool | JNumber bool nat int | JString jsstring
| JArray "json list" | JObject "(jsstring \<times> json) list"

definition isJSONWhiteSpace :: "16 word \<Rightarrow> bool" where
  "isJSONWhiteSpace c = (c = 0x09 \<or> c = 0x0A \<or> c = 0x0D \<or> c = 0x20)"

definition isDigit :: "16 word \<Rightarrow> bool" where
  "isDigit c = (0x30 \<le> c \<and> c \<le> 0x39)"

definition hex4 :: "16 word \<Rightarrow> 16 word \<Rightarrow> 16 word \<Rightarrow> 16 word \<Rightarrow> 16 word option" where
  "hex4 a b c d =
     (case (digitValue 16 a, digitValue 16 b, digitValue 16 c, digitValue 16 d) of
        (Some x, Some y, Some z, Some w) \<Rightarrow> Some (of_nat (x * 4096 + y * 256 + z * 16 + w))
      | _ \<Rightarrow> None)"

definition simpleEscape :: "16 word \<Rightarrow> 16 word option" where
  "simpleEscape e =
     (if e = 0x22 then Some 0x22
      else if e = 0x5C then Some 0x5C
      else if e = 0x2F then Some 0x2F
      else if e = 0x62 then Some 0x08
      else if e = 0x66 then Some 0x0C
      else if e = 0x6E then Some 0x0A
      else if e = 0x72 then Some 0x0D
      else if e = 0x74 then Some 0x09
      else None)"

definition consUnit :: "16 word \<Rightarrow> (jsstring \<times> jsstring) option \<Rightarrow> (jsstring \<times> jsstring) option" where
  "consUnit u r = (case r of None \<Rightarrow> None | Some (s, rest) \<Rightarrow> Some (u # s, rest))"

text \<open>The characters of a string after its opening quote, and what follows the closing one.\<close>

fun lexString :: "jsstring \<Rightarrow> (jsstring \<times> jsstring) option" where
  "lexString [] = None"
| "lexString (c # cs) =
     (if c = 0x22 then Some ([], cs)
      else if c = 0x5C then
        (case cs of
           [] \<Rightarrow> None
         | e # es \<Rightarrow>
             if e = 0x75 then
               (case es of
                  h1 # h2 # h3 # h4 # rest \<Rightarrow>
                    (case hex4 h1 h2 h3 h4 of
                       None \<Rightarrow> None
                     | Some u \<Rightarrow> consUnit u (lexString rest))
                | _ \<Rightarrow> None)
             else
               (case simpleEscape e of
                  None \<Rightarrow> None
                | Some u \<Rightarrow> consUnit u (lexString es)))
      else if c < 0x20 then None
      else consUnit c (lexString cs))"

text \<open>
  A number: an optional minus, \<^verbatim>\<open>0\<close> or digits that do not start with \<^verbatim>\<open>0\<close>, an
  optional fraction and an optional exponent, each with at least one digit.
\<close>

definition lexSign :: "jsstring \<Rightarrow> bool \<times> jsstring" where
  "lexSign cs = (case cs of [] \<Rightarrow> (False, []) | c # r \<Rightarrow> if c = 0x2D then (True, r) else (False, cs))"

definition lexIntDigits :: "jsstring \<Rightarrow> jsstring" where
  "lexIntDigits cs = (case cs of [] \<Rightarrow> [] | d # r \<Rightarrow> if d = 0x30 then [d] else takeWhile isDigit cs)"

definition lexFraction :: "jsstring \<Rightarrow> (jsstring \<times> jsstring) option" where
  "lexFraction cs =
     (case cs of
        [] \<Rightarrow> Some ([], [])
      | c # r \<Rightarrow>
          if c = 0x2E then
            (if takeWhile isDigit r = [] then None
             else Some (takeWhile isDigit r, dropWhile isDigit r))
          else Some ([], cs))"

definition lexExponentSign :: "jsstring \<Rightarrow> int \<times> jsstring" where
  "lexExponentSign cs =
     (case cs of
        [] \<Rightarrow> (1, [])
      | c # r \<Rightarrow> if c = 0x2B then (1, r) else if c = 0x2D then (- 1, r) else (1, cs))"

definition lexExponent :: "jsstring \<Rightarrow> (int \<times> jsstring) option" where
  "lexExponent cs =
     (case cs of
        [] \<Rightarrow> Some (0, [])
      | c # r \<Rightarrow>
          if c = 0x65 \<or> c = 0x45 then
            (let (sg, r') = lexExponentSign r
             in if takeWhile isDigit r' = [] then None
                else Some (sg * int (digitsValue 10 0 (takeWhile isDigit r')), dropWhile isDigit r'))
          else Some (0, cs))"

definition lexNumber :: "jsstring \<Rightarrow> (token \<times> jsstring) option" where
  "lexNumber cs =
     (let (neg, r0) = lexSign cs;
          ds = lexIntDigits r0
      in if ds = [] then None
         else
           (case lexFraction (drop (length ds) r0) of
              None \<Rightarrow> None
            | Some (fs, r2) \<Rightarrow>
                (case lexExponent r2 of
                   None \<Rightarrow> None
                 | Some (ex, r3) \<Rightarrow>
                     Some (TNumber neg (digitsValue 10 0 (ds @ fs)) (ex - int (length fs)), r3))))"

lemma consUnit_length:
  "consUnit u r = Some (s, rest) \<Longrightarrow> \<exists>s'. r = Some (s', rest)"
  by (auto simp: consUnit_def split: option.splits)

lemma lexString_length: "lexString cs = Some (s, rest) \<Longrightarrow> length rest < Suc (length cs)"
  apply (induction cs arbitrary: s rule: lexString.induct)
   apply simp
  apply (simp split: if_splits list.splits option.splits)
  apply (auto dest!: consUnit_length)
   apply (metis less_Suc_eq)
  apply (metis less_Suc_eq)
  done

lemma lexFraction_length: "lexFraction cs = Some (fs, r) \<Longrightarrow> length r \<le> length cs"
  by (auto simp: lexFraction_def length_dropWhile_le le_SucI split: list.splits if_splits)

lemma lexExponent_length: "lexExponent cs = Some (ex, r) \<Longrightarrow> length r \<le> length cs"
proof (cases cs)
  case Nil
  assume "lexExponent cs = Some (ex, r)"
  with Nil show ?thesis by (simp add: lexExponent_def)
next
  case (Cons c t)
  assume a: "lexExponent cs = Some (ex, r)"
  have "length (snd (lexExponentSign t)) \<le> length t"
    by (auto simp: lexExponentSign_def split: list.splits)
  moreover have "length (dropWhile isDigit (snd (lexExponentSign t))) \<le> length (snd (lexExponentSign t))"
    by (rule length_dropWhile_le)
  ultimately show ?thesis using a Cons
    by (auto simp: lexExponent_def Let_def split: if_splits prod.splits)
qed

lemma lexNumber_length:
  assumes "lexNumber (c # cs) = Some (t, rest)"
  shows "length rest < Suc (length cs)"
proof -
  obtain neg r0 where sg: "lexSign (c # cs) = (neg, r0)" by (cases "lexSign (c # cs)")
  then have r0: "length r0 \<le> Suc (length cs)"
    by (auto simp: lexSign_def split: if_splits)
  from assms sg have ne: "lexIntDigits r0 \<noteq> []"
    by (auto simp: lexNumber_def Let_def split: if_splits)
  have len: "length (lexIntDigits r0) \<le> length r0"
    by (auto simp: lexIntDigits_def length_takeWhile_le split: list.splits)
  from ne have pos: "0 < length (lexIntDigits r0)" by simp
  from assms sg ne obtain fs r2 ex where
    f: "lexFraction (drop (length (lexIntDigits r0)) r0) = Some (fs, r2)"
    and e: "lexExponent r2 = Some (ex, rest)"
    by (auto simp: lexNumber_def Let_def split: if_splits option.splits)
  from lexFraction_length [OF f] have "length r2 \<le> length r0 - length (lexIntDigits r0)" by simp
  with lexExponent_length [OF e] pos len r0 show ?thesis
    by linarith
qed

function tokenize :: "jsstring \<Rightarrow> token list option" where
  "tokenize [] = Some []"
| "tokenize (c # cs) =
     (if isJSONWhiteSpace c then tokenize cs
      else if c = 0x5B then map_option (Cons TLBracket) (tokenize cs)
      else if c = 0x5D then map_option (Cons TRBracket) (tokenize cs)
      else if c = 0x7B then map_option (Cons TLBrace) (tokenize cs)
      else if c = 0x7D then map_option (Cons TRBrace) (tokenize cs)
      else if c = 0x2C then map_option (Cons TComma) (tokenize cs)
      else if c = 0x3A then map_option (Cons TColon) (tokenize cs)
      else if c = 0x22 then
        (case lexString cs of
           None \<Rightarrow> None
         | Some (s, rest) \<Rightarrow> map_option (Cons (TString s)) (tokenize rest))
      else if c = 0x2D \<or> isDigit c then
        (case lexNumber (c # cs) of
           None \<Rightarrow> None
         | Some (t, rest) \<Rightarrow> map_option (Cons t) (tokenize rest))
      else if take 4 (c # cs) = js ''true'' then map_option (Cons TTrue) (tokenize (drop 3 cs))
      else if take 5 (c # cs) = js ''false'' then map_option (Cons TFalse) (tokenize (drop 4 cs))
      else if take 4 (c # cs) = js ''null'' then map_option (Cons TNull) (tokenize (drop 3 cs))
      else None)"
  by pat_completeness auto
termination
  by (relation "measure length") (auto dest: lexString_length lexNumber_length)

text \<open>
  The stack machine. A frame is an array or an object under construction, elements and
  members in reverse; \<open>FMember\<close> is an object whose next value belongs to the given key.
\<close>

datatype frame =
  FArray "json list" | FObject "(jsstring \<times> json) list" | FMember "(jsstring \<times> json) list" jsstring

datatype mode =
  Value | ValueOrEnd | Key | KeyOrEnd | AfterKey jsstring | CommaOrEnd | Done json

text \<open>A complete value goes into the innermost open container, or is the result.\<close>

fun reduce :: "json \<Rightarrow> frame list \<Rightarrow> (mode \<times> frame list) option" where
  "reduce v [] = Some (Done v, [])"
| "reduce v (FArray es # st) = Some (CommaOrEnd, FArray (v # es) # st)"
| "reduce v (FMember ms k # st) = Some (CommaOrEnd, FObject ((k, v) # ms) # st)"
| "reduce v (FObject ms # st) = None"

fun scalar :: "token \<Rightarrow> json option" where
  "scalar (TString s) = Some (JString s)"
| "scalar (TNumber neg m e) = Some (JNumber neg m e)"
| "scalar TTrue = Some (JBool True)"
| "scalar TFalse = Some (JBool False)"
| "scalar TNull = Some JNull"
| "scalar _ = None"

definition startValue :: "token \<Rightarrow> frame list \<Rightarrow> (mode \<times> frame list) option" where
  "startValue t st =
     (case scalar t of
        Some v \<Rightarrow> reduce v st
      | None \<Rightarrow>
          if t = TLBracket then Some (ValueOrEnd, FArray [] # st)
          else if t = TLBrace then Some (KeyOrEnd, FObject [] # st)
          else None)"

fun step :: "token \<Rightarrow> mode \<times> frame list \<Rightarrow> (mode \<times> frame list) option" where
  "step t (Value, st) = startValue t st"
| "step t (ValueOrEnd, st) =
     (if t = TRBracket then (case st of FArray es # st' \<Rightarrow> reduce (JArray (rev es)) st' | _ \<Rightarrow> None)
      else startValue t st)"
| "step t (Key, st) = (case t of TString k \<Rightarrow> Some (AfterKey k, st) | _ \<Rightarrow> None)"
| "step t (KeyOrEnd, st) =
     (case t of
        TString k \<Rightarrow> Some (AfterKey k, st)
      | TRBrace \<Rightarrow> (case st of FObject ms # st' \<Rightarrow> reduce (JObject (rev ms)) st' | _ \<Rightarrow> None)
      | _ \<Rightarrow> None)"
| "step t (AfterKey k, st) =
     (if t = TColon then (case st of FObject ms # st' \<Rightarrow> Some (Value, FMember ms k # st') | _ \<Rightarrow> None)
      else None)"
| "step t (CommaOrEnd, st) =
     (case st of
        FArray es # st' \<Rightarrow>
          (if t = TComma then Some (Value, st)
           else if t = TRBracket then reduce (JArray (rev es)) st'
           else None)
      | FObject ms # st' \<Rightarrow>
          (if t = TComma then Some (Key, st)
           else if t = TRBrace then reduce (JObject (rev ms)) st'
           else None)
      | _ \<Rightarrow> None)"
| "step t (Done v, st) = None"

fun run :: "token list \<Rightarrow> mode \<times> frame list \<Rightarrow> (mode \<times> frame list) option" where
  "run [] c = Some c"
| "run (t # ts) c = (case step t c of None \<Rightarrow> None | Some c' \<Rightarrow> run ts c')"

datatype js_error = SyntaxError

definition JSON_parse :: "jsstring \<Rightarrow> js_error + json" where
  "JSON_parse text =
     (case tokenize text of
        None \<Rightarrow> Inl SyntaxError
      | Some ts \<Rightarrow>
          (case run ts (Value, []) of
             Some (Done v, st) \<Rightarrow> Inr v
           | _ \<Rightarrow> Inl SyntaxError))"

subsection \<open>Values that are task arrays\<close>

text \<open>
  The script keeps whatever value \<^verbatim>\<open>JSON.parse\<close> returns. The state of the model holds
  a list of tasks, so it covers the values that are arrays of objects with exactly the
  four properties of a task, of the types \<^verbatim>\<open>addTask\<close> gives them, the id being an
  integer. Any other value is outside the model.
\<close>

definition integerOfNumber :: "bool \<Rightarrow> nat \<Rightarrow> int \<Rightarrow> int option" where
  "integerOfNumber neg m e =
     (let v = (if 0 \<le> e then Some (int m * 10 ^ nat e)
               else if m mod 10 ^ nat (- e) = 0 then Some (int (m div 10 ^ nat (- e)))
               else None)
      in map_option (\<lambda>n. if neg then - n else n) v)"

definition taskOfJson :: "json \<Rightarrow> task option" where
  "taskOfJson v =
     (case v of
        JObject ms \<Rightarrow>
          if length ms = 4 \<and> distinct (map fst ms) then
            (case (map_of ms (js ''id''), map_of ms (js ''title''),
                   map_of ms (js ''description''), map_of ms (js ''completed'')) of
               (Some (JNumber neg m e), Some (JString t), Some (JString d), Some (JBool c)) \<Rightarrow>
                 map_option
                   (\<lambda>i. \<lparr>task_id = i, title = t, description = d, completed = c\<rparr>)
                   (integerOfNumber neg m e)
             | _ \<Rightarrow> None)
          else None
      | _ \<Rightarrow> None)"

fun tasksOfValues :: "json list \<Rightarrow> task list option" where
  "tasksOfValues [] = Some []"
| "tasksOfValues (v # vs) =
     (case taskOfJson v of
        None \<Rightarrow> None
      | Some t \<Rightarrow> map_option (Cons t) (tasksOfValues vs))"

definition tasksOfJson :: "json \<Rightarrow> task list option" where
  "tasksOfJson v = (case v of JArray vs \<Rightarrow> tasksOfValues vs | _ \<Rightarrow> None)"

subsection \<open>Loading and start of the page\<close>

text \<open>
  The result of a run that can throw: \<open>Returns\<close> the new state, \<open>Throws\<close> an error, or
  \<open>Untyped\<close> when the script goes on with a value that is not a task array.
\<close>

datatype 'a outcome = Returns 'a | Throws js_error | Untyped

text \<open>
  \<^verbatim>\<open>loadTasks\<close>. The test \<^verbatim>\<open>if (storedTasks)\<close> fails for \<^verbatim>\<open>null\<close>, the value of a
  missing item, and for the empty string.
\<close>

definition loadTasks :: "state \<Rightarrow> state outcome" where
  "loadTasks s =
     (case storage s of
        None \<Rightarrow> Returns s
      | Some storedTasks \<Rightarrow>
          if storedTasks \<noteq> [] then
            (case JSON_parse storedTasks of
               Inl e \<Rightarrow> Throws e
             | Inr v \<Rightarrow>
                 (case tasksOfJson v of
                    None \<Rightarrow> Untyped
                  | Some ts \<Rightarrow> Returns (s\<lparr>tasks := ts\<rparr>)))
          else Returns s)"

text \<open>
  The body of the \<^verbatim>\<open>DOMContentLoaded\<close> listener of \<^verbatim>\<open>script.js\<close>, on a freshly
  loaded page whose storage item is \<open>stored\<close>: the variables are initialised, \<^verbatim>\<open>addTask\<close>
  is registered, the tasks are loaded and the button is disabled.
\<close>

definition freshPage :: "jsstring option \<Rightarrow> state" where
  "freshPage stored =
     \<lparr>tasks = [], isTitleInputDirty = False, storage = stored, titleValue = [],
      descriptionValue = [], buttonText = js ''Agregar Tarea'', buttonDisabled = False,
      editingId = None, errorDisplay = DisplayUnset, titleFocused = False,
      submitListeners = []\<rparr>"

definition main :: "jsstring option \<Rightarrow> state outcome" where
  "main stored =
     (let s0 = freshPage stored;
          s1 = s0\<lparr>submitListeners := addEventListener AddTask (submitListeners s0)\<rparr>
      in case loadTasks s1 of
           Returns s2 \<Rightarrow> Returns (s2\<lparr>buttonDisabled := True\<rparr>)
         | Throws e \<Rightarrow> Throws e
         | Untyped \<Rightarrow> Untyped)"

subsection \<open>The operations of \<^verbatim>\<open>js/script.js\<close>\<close>

text \<open>
  The revision \<^verbatim>\<open>js/script.js\<close> leaves validation to \<^verbatim>\<open>js/formValidation.js\<close>:
  its \<^verbatim>\<open>addTask\<close>, \<^verbatim>\<open>editTask\<close> and \<^verbatim>\<open>updateTask\<close> do not call
  \<^verbatim>\<open>validateTitle\<close> and test \<^verbatim>\<open>addTaskButton.disabled\<close> instead. They carry the
  suffix \<open>_split\<close> here; \<^verbatim>\<open>saveTasks\<close>, \<^verbatim>\<open>loadTasks\<close>, \<^verbatim>\<open>deleteTask\<close> and
  \<^verbatim>\<open>toggleCompleteTask\<close> are the same text in both revisions.
\<close>

definition addTask_split :: "int \<Rightarrow> state \<Rightarrow> state" where
  "addTask_split now s =
     (if buttonDisabled s then s
      else
        let newTask = \<lparr>task_id = now, title = trim (titleValue s),
                       description = trim (descriptionValue s), completed = False\<rparr>;
            s3 = saveTasks (s\<lparr>tasks := tasks s @ [newTask]\<rparr>)
        in focusTitle ((resetForm s3)\<lparr>buttonDisabled := True\<rparr>))"

definition editTask_split :: "int \<Rightarrow> state \<Rightarrow> state" where
  "editTask_split i s =
     (case find (\<lambda>t. task_id t = i) (tasks s) of
        None \<Rightarrow> s
      | Some taskToEdit \<Rightarrow>
          s\<lparr>titleValue := title taskToEdit,
            descriptionValue := description taskToEdit,
            buttonText := js ''Actualizar Tarea'',
            editingId := Some (Number_toString i),
            submitListeners :=
              addEventListener UpdateTask (removeEventListener AddTask (submitListeners s))\<rparr>)"

definition updateTask_split :: "state \<Rightarrow> state" where
  "updateTask_split s =
     (if buttonDisabled s then s
      else
        let eid = parsedEditingId s
        in case findIndex (\<lambda>t. Some (task_id t) = eid) (tasks s) of
             None \<Rightarrow> s
           | Some taskIndex \<Rightarrow>
               let s3 = s\<lparr>tasks := (tasks s)
                          [taskIndex := (tasks s ! taskIndex)\<lparr>title := trim (titleValue s)\<rparr>]\<rparr>;
                   s4 = s3\<lparr>tasks := (tasks s3)
                          [taskIndex := (tasks s3 ! taskIndex)
                             \<lparr>description := trim (descriptionValue s3)\<rparr>]\<rparr>;
                   s5 = saveTasks s4;
                   s6 = (resetForm s5)\<lparr>buttonText := js ''Agregar Tarea'', editingId := None,
                                        buttonDisabled := True\<rparr>;
                   s7 = focusTitle s6
               in s7\<lparr>submitListeners :=
                       addEventListener AddTask
                         (removeEventListener UpdateTask (submitListeners s7))\<rparr>)"

subsection \<open>What the user does\<close>

text \<open>
  The events the page reacts to: typing in a field, the title field losing or gaining
  the focus, a submission of the form at clock reading \<open>now\<close>, and a click on the edit,
  delete (confirmed in the dialog) or complete button of the row drawn for a task id. The
  click listener reads the id back from the row, \<^verbatim>\<open>parseInt(row.dataset.id)\<close>, where
  \<^verbatim>\<open>renderTasks\<close> has stored it as a string; \<^verbatim>\<open>NaN\<close> is the id of no task.
\<close>

datatype event =
  TitleInput jsstring | DescriptionInput jsstring | TitleBlur | TitleFocus
| Submit int | EditClick int | DeleteClick int | ToggleClick int

definition rowTaskId :: "int \<Rightarrow> int option" where
  "rowTaskId i = parseInt (Number_toString i)"

fun fire :: "event \<Rightarrow> state \<Rightarrow> state" where
  "fire (TitleInput v) s = onTitleInput v s"
| "fire (DescriptionInput v) s = onDescriptionInput v s"
| "fire TitleBlur s = onTitleBlur s"
| "fire TitleFocus s = focusTitle s"
| "fire (Submit now) s = submit now s"
| "fire (EditClick i) s = (case rowTaskId i of None \<Rightarrow> s | Some taskId \<Rightarrow> editTask taskId s)"
| "fire (DeleteClick i) s =
     (case rowTaskId i of None \<Rightarrow> saveTasks s | Some taskId \<Rightarrow> deleteTask taskId s)"
| "fire (ToggleClick i) s =
     (case rowTaskId i of None \<Rightarrow> s | Some taskId \<Rightarrow> toggleCompleteTask taskId s)"

section \<open>The specification's reading of the title rule\<close>

text \<open>
  The specification counts the length that is left once leading and trailing white
  space is taken away: the units of the title, less the white space it starts with and
  the white space it ends with; nothing is left of a title that is all white space.
\<close>

definition specTrimmedLength :: "jsstring \<Rightarrow> nat" where
  "specTrimmedLength t =
     (if list_all isWhiteSpace t then 0
      else length t - length (takeWhile isWhiteSpace t) - length (takeWhile isWhiteSpace (rev t)))"

definition specValid :: "jsstring \<Rightarrow> bool" where
  "specValid t = (5 \<le> specTrimmedLength t \<and> specTrimmedLength t \<le> 50)"

section \<open>Auxiliary definitions\<close>

text \<open>A task and a started page holding given tasks, for the examples.\<close>

definition sampleTask :: "int \<Rightarrow> task" where
  "sampleTask i = \<lparr>task_id = i, title = js ''Buy groceries'', description = js ''milk, eggs'', completed = False\<rparr>"

definition sampleState :: "task list \<Rightarrow> state" where
  "sampleState ts = (freshPage (Some (JSON_stringify ts)))\<lparr>tasks := ts, submitListeners := [AddTask], buttonDisabled := True\<rparr>"

text \<open>The list after \<^verbatim>\<open>updateTask\<close> has rewritten the task at position \<open>k\<close>.\<close>

definition updatedTasks :: "state \<Rightarrow> nat \<Rightarrow> task list" where
  "updatedTasks s k =
     (tasks s)[k := (tasks s ! k)\<lparr>title := trim (titleValue s), description := trim (descriptionValue s)\<rparr>]"

text \<open>A page in the middle of editing task \<open>i\<close>, with the given form values.\<close>

definition editingState :: "task list \<Rightarrow> int \<Rightarrow> jsstring \<Rightarrow> jsstring \<Rightarrow> state" where
  "editingState ts i t d =
     (sampleState ts)\<lparr>titleValue := t, descriptionValue := d, buttonText := js ''Actualizar Tarea'',
                       editingId := Some (Number_toString i), submitListeners := [UpdateTask]\<rparr>"

text \<open>A started page whose only task has the id 1750809600000, after a valid title is typed.\<close>

definition clashState :: state where
  "clashState = onTitleInput (js ''Buy milk'') (sampleState [sampleTask 1750809600000])"

text \<open>
  Two different tasks that carry the same id, begin edit on the first and then on the
  second, and a submission of new form values.
\<close>

definition twinTask :: task where
  "twinTask = \<lparr>task_id = 7, title = js ''Call the bank'', description = js ''before noon'', completed = False\<rparr>"

definition twinState :: state where
  "twinState = sampleState [sampleTask 7, twinTask]"

definition twinEdit :: state where
  "twinEdit = editTask (task_id twinTask) (editTask (task_id (sampleTask 7)) twinState)"

definition twinSubmitted :: state where
  "twinSubmitted =
     submit 1750809600000 (onDescriptionInput (js '' eggs '') (onTitleInput (js ''Buy milk'') twinEdit))"

text \<open>The same steps on two tasks with the ids 1 and \<open>10 ^ 21\<close>.\<close>

definition farState :: state where
  "farState = sampleState [sampleTask 1, sampleTask (10 ^ 21)]"

definition farEdit :: state where
  "farEdit = editTask (task_id (sampleTask (10 ^ 21))) (editTask (task_id (sampleTask 1)) farState)"

definition farSubmitted :: state where
  "farSubmitted =
     submit 1750809600000 (onDescriptionInput (js '' eggs '') (onTitleInput (js ''Buy milk'') farEdit))"

text \<open>Edit a task, delete it, type a valid title, submit.\<close>

definition strandedRun :: "event list" where
  "strandedRun = [EditClick 1, DeleteClick 1, TitleInput (js ''Buy milk''), Submit 1750809600000]"

text \<open>
  The digits that \<open>Number_toString\<close> shows of a number, and the significand and the
  exponent that \<^verbatim>\<open>JSON.parse\<close> reads from them.
\<close>

definition shownDigits :: "nat \<Rightarrow> jsstring" where
  "shownDigits m =
     (if m < 10 ^ 21 then natDigits m
      else hd (natDigits m) # dropTrailingZeros (tl (natDigits m)))"

definition significand :: "nat \<Rightarrow> nat" where
  "significand m = digitsValue 10 0 (shownDigits m)"

definition exponent :: "nat \<Rightarrow> int" where
  "exponent m = int (length (natDigits m)) - int (length (shownDigits m))"

text \<open>The tokens and the value of the text that \<^verbatim>\<open>JSON.stringify\<close> writes for a task.\<close>

definition tokensOfTask :: "task \<Rightarrow> token list" where
  "tokensOfTask t =
     [TLBrace, TString (js ''id''), TColon,
      TNumber (task_id t < 0) (significand (nat \<bar>task_id t\<bar>)) (exponent (nat \<bar>task_id t\<bar>)), TComma,
      TString (js ''title''), TColon, TString (title t), TComma,
      TString (js ''description''), TColon, TString (description t), TComma,
      TString (js ''completed''), TColon, (if completed t then TTrue else TFalse), TRBrace]"

fun tokensOfElements :: "task list \<Rightarrow> token list" where
  "tokensOfElements [] = []"
| "tokensOfElements [t] = tokensOfTask t"
| "tokensOfElements (t # u # ts) = tokensOfTask t @ TComma # tokensOfElements (u # ts)"

definition jsonOfTask :: "task \<Rightarrow> json" where
  "jsonOfTask t =
     JObject [(js ''id'',
                JNumber (task_id t < 0) (significand (nat \<bar>task_id t\<bar>)) (exponent (nat \<bar>task_id t\<bar>))),
              (js ''title'', JString (title t)),
              (js ''description'', JString (description t)),
              (js ''completed'', JBool (completed t))]"

text \<open>The task list a fresh page would start with, given the stored item.\<close>

definition reloaded :: "jsstring option \<Rightarrow> task list option" where
  "reloaded stored = (case main stored of Returns s' \<Rightarrow> Some (tasks s') | _ \<Rightarrow> None)"

text \<open>An operation keeps list and storage in step: it changes neither, or it saves the list.\<close>

definition inStep :: "state \<Rightarrow> state \<Rightarrow> bool" where
  "inStep s s' =
     ((tasks s' = tasks s \<and> storage s' = storage s) \<or> storage s' = Some (JSON_stringify (tasks s')))"

text \<open>The page started on empty storage, and a run of the user on it.\<close>

definition startState :: state where
  "startState = (freshPage None)\<lparr>submitListeners := [AddTask], buttonDisabled := True\<rparr>"

definition groceriesRun :: "event list" where
  "groceriesRun =
     [TitleInput (js ''Buy milk''), DescriptionInput (js '' eggs ''), Submit 1750809600000,
      ToggleClick 1750809600000, EditClick 1750809600000, TitleInput (js ''Buy milk''),
      Submit 1750809660000, TitleInput (js ''Buy milk''), Submit 1750809720000,
      DeleteClick 1750809600000]"

section \<open>Validation\<close>

lemma length_trim: "length (trim t) = specTrimmedLength t"
proof (cases "list_all isWhiteSpace t")
  case True
  then have d: "dropWhile isWhiteSpace t = []" by (simp only: dropWhile_eq_Nil_conv list_all_iff)
  have "trim t = []" by (simp only: trim_def trimStart_def trimEnd_def d rev.simps dropWhile.simps)
  with True show ?thesis by (simp add: specTrimmedLength_def)
next
  case False
  then obtain x where x: "x \<in> set t" "\<not> isWhiteSpace x" by (auto simp: list_all_iff)
  define l where "l = takeWhile isWhiteSpace t"
  define r where "r = dropWhile isWhiteSpace t"
  have t: "t = l @ r" by (simp add: l_def r_def)
  have rne: "r \<noteq> []" using x by (auto simp: r_def)
  then have hd: "\<not> isWhiteSpace (hd r)" unfolding r_def by (rule hd_dropWhile)
  have "takeWhile isWhiteSpace (rev t) = takeWhile isWhiteSpace (rev r)"
  proof -
    have "hd r \<in> set (rev r)" using rne by simp
    then show ?thesis unfolding t rev_append using hd by (rule takeWhile_append1)
  qed
  moreover have "length (dropWhile isWhiteSpace (rev r)) = length r - length (takeWhile isWhiteSpace (rev r))"
    by (metis length_rev takeWhile_dropWhile_id length_append add_diff_cancel_left')
  moreover have "length t - length l = length r" by (simp add: t)
  ultimately show ?thesis using False
    by (simp add: trim_def trimStart_def trimEnd_def specTrimmedLength_def l_def [symmetric] r_def [symmetric])
qed

lemma validateTitle_fst: "fst (validateTitle s) = (5 \<le> length (trim (titleValue s)) \<and> length (trim (titleValue s)) \<le> 50)"
  by (simp add: validateTitle_def Let_def)

text \<open>
  C1. For every title in the field, \<^verbatim>\<open>validateTitle\<close> returns true exactly when the
  length of the title without its leading and trailing white space is at least 5 and at
  most 50, and false for every other title.
\<close>

theorem validateTitle_valid_iff:
  "fst (validateTitle s) = specValid (titleValue s)"
  by (simp add: validateTitle_fst specValid_def length_trim)

section \<open>What the helpers leave alone\<close>

lemma validateTitle_frame:
  "tasks (snd (validateTitle s)) = tasks s"
  "storage (snd (validateTitle s)) = storage s"
  "titleValue (snd (validateTitle s)) = titleValue s"
  "descriptionValue (snd (validateTitle s)) = descriptionValue s"
  "editingId (snd (validateTitle s)) = editingId s"
  "buttonText (snd (validateTitle s)) = buttonText s"
  "submitListeners (snd (validateTitle s)) = submitListeners s"
  by (simp_all add: validateTitle_def Let_def)

lemma validateTitle_dirty:
  "fst (validateTitle (s\<lparr>isTitleInputDirty := b\<rparr>)) = fst (validateTitle s)"
  by (simp add: validateTitle_def Let_def)

lemma validateTitle_again:
  "fst (validateTitle (snd (validateTitle s))) = fst (validateTitle s)"
  by (simp add: validateTitle_def Let_def)

lemma focusTitle_frame:
  "tasks (focusTitle s) = tasks s"
  "storage (focusTitle s) = storage s"
  "titleValue (focusTitle s) = titleValue s"
  "descriptionValue (focusTitle s) = descriptionValue s"
  "editingId (focusTitle s) = editingId s"
  "buttonText (focusTitle s) = buttonText s"
  "submitListeners (focusTitle s) = submitListeners s"
  by (simp_all add: focusTitle_def onTitleFocus_def)

section \<open>Deleting\<close>

lemma filter_id_absent:
  "i \<notin> set (map task_id ts) \<Longrightarrow> filter (\<lambda>t. task_id t \<noteq> i) ts = ts"
  by (induction ts) auto

text \<open>
  C9. \<^verbatim>\<open>deleteTask\<close> keeps, in their order, exactly the tasks whose id is not the given
  one: with no task of that id the list is unchanged, and a task of that id that is the
  only one is taken out from between its neighbours, which stay as they are.
\<close>

theorem deleteTask_removes_exactly:
  "tasks (deleteTask i s) = filter (\<lambda>t. task_id t \<noteq> i) (tasks s) \<and>
   (i \<notin> set (map task_id (tasks s)) \<longrightarrow> tasks (deleteTask i s) = tasks s) \<and>
   (\<forall>xs t ys. tasks s = xs @ t # ys \<and> task_id t = i \<and> i \<notin> set (map task_id (xs @ ys))
      \<longrightarrow> tasks (deleteTask i s) = xs @ ys)"
proof -
  have del: "tasks (deleteTask i s) = filter (\<lambda>t. task_id t \<noteq> i) (tasks s)"
    by (simp add: deleteTask_def saveTasks_def)
  have absent: "i \<notin> set (map task_id (tasks s)) \<longrightarrow> tasks (deleteTask i s) = tasks s"
    by (simp add: del filter_id_absent)
  have present: "tasks (deleteTask i s) = xs @ ys"
    if "tasks s = xs @ t # ys" "task_id t = i" "i \<notin> set (map task_id (xs @ ys))" for xs t ys
  proof -
    from that(3) have "filter (\<lambda>t. task_id t \<noteq> i) (xs @ ys) = xs @ ys"
      by (rule filter_id_absent)
    with that(1,2) del show ?thesis by simp
  qed
  from del absent present show ?thesis by blast
qed

theorem deleteTask_removes_exactly_witness:
  "tasks (deleteTask 2 (sampleState [sampleTask 1, sampleTask 2, sampleTask 3])) = [sampleTask 1, sampleTask 3]
   \<and> tasks (deleteTask 7 (sampleState [sampleTask 1, sampleTask 2])) = [sampleTask 1, sampleTask 2]"
proof -
  have a: "tasks (sampleState [sampleTask 1, sampleTask 2, sampleTask 3]) = [sampleTask 1] @ sampleTask 2 # [sampleTask 3]
        \<and> task_id (sampleTask 2) = 2 \<and> 2 \<notin> set (map task_id ([sampleTask 1] @ [sampleTask 3]))"
    by (simp add: sampleState_def sampleTask_def)
  have b: "7 \<notin> set (map task_id (tasks (sampleState [sampleTask 1, sampleTask 2])))"
    by (simp add: sampleState_def sampleTask_def)
  from deleteTask_removes_exactly [of 2 "sampleState [sampleTask 1, sampleTask 2, sampleTask 3]"] a
  have "tasks (deleteTask 2 (sampleState [sampleTask 1, sampleTask 2, sampleTask 3])) = [sampleTask 1] @ [sampleTask 3]"
    by blast
  moreover from deleteTask_removes_exactly [of 7 "sampleState [sampleTask 1, sampleTask 2]"] b
  have "tasks (deleteTask 7 (sampleState [sampleTask 1, sampleTask 2])) = tasks (sampleState [sampleTask 1, sampleTask 2])"
    by blast
  ultimately show ?thesis by (simp add: sampleState_def)
qed

section \<open>Begin edit\<close>

lemma find_absent: "\<forall>t\<in>set ts. task_id t \<noteq> i \<Longrightarrow> find (\<lambda>t. task_id t = i) ts = None"
  by (simp add: find_None_iff)

text \<open>
  C10. \<^verbatim>\<open>editTask\<close> with an id that no task has changes nothing at all: the whole state
  (task list, form fields, button text and editing id, submit listeners) is as before, in
  both revisions of the function.
\<close>

theorem editTask_absent_noop:
  "\<forall>t\<in>set (tasks s). task_id t \<noteq> i \<Longrightarrow> editTask i s = s \<and> editTask_split i s = s"
  by (simp add: editTask_def editTask_split_def find_absent)

theorem editTask_absent_noop_witness:
  "map task_id (tasks (sampleState [sampleTask 1, sampleTask 2])) = [1, 2] \<and>
   editTask 5 (sampleState [sampleTask 1, sampleTask 2]) = sampleState [sampleTask 1, sampleTask 2] \<and>
   editTask_split 5 (sampleState [sampleTask 1, sampleTask 2]) = sampleState [sampleTask 1, sampleTask 2]"
proof -
  have h: "\<forall>t\<in>set (tasks (sampleState [sampleTask 1, sampleTask 2])). task_id t \<noteq> 5"
    by (simp add: sampleState_def sampleTask_def)
  have "map task_id (tasks (sampleState [sampleTask 1, sampleTask 2])) = [1, 2]"
    by (simp add: sampleState_def sampleTask_def)
  with editTask_absent_noop [OF h] show ?thesis by blast
qed

lemma unat_digitChar: "d < 10 \<Longrightarrow> unat (digitChar d) = 48 + d"
  unfolding digitChar_def by (rule of_nat_inverse [OF refl]) simp

lemma digitValue_digitChar: "d < 10 \<Longrightarrow> digitValue 10 (digitChar d) = Some d"
  by (simp add: digitValue_def word_le_nat_alt unat_digitChar)

lemma digitChar_plain:
  "d < 10 \<Longrightarrow> \<not> isWhiteSpace (digitChar d) \<and> digitChar d \<noteq> 0x2D \<and> digitChar d \<noteq> 0x2B
     \<and> digitChar d \<noteq> 0x78 \<and> digitChar d \<noteq> 0x58 \<and> isDigit (digitChar d)
     \<and> digitChar d \<noteq> 0x2E \<and> digitChar d \<noteq> 0x65 \<and> digitChar d \<noteq> 0x45"
  by (simp add: isWhiteSpace_def isDigit_def word_le_nat_alt word_unat_eq_iff unat_digitChar)

lemma digitsValue_natDigits:
  "digitsValue 10 acc (natDigits n @ rest) = digitsValue 10 (acc * 10 ^ length (natDigits n) + n) rest"
proof (induction n arbitrary: acc rest rule: natDigits.induct)
  case (1 n)
  show ?case
  proof (cases "n < 10")
    case True
    then show ?thesis by (simp add: natDigits.simps digitValue_digitChar)
  next
    case False
    have "digitsValue 10 acc (natDigits n @ rest)
            = digitsValue 10 acc (natDigits (n div 10) @ (digitChar (n mod 10) # rest))"
      using False by (subst natDigits.simps) simp
    also have "\<dots> = digitsValue 10 (acc * 10 ^ length (natDigits (n div 10)) + n div 10)
                       (digitChar (n mod 10) # rest)"
      using False by (rule "1.IH")
    also have "\<dots> = digitsValue 10
                       ((acc * 10 ^ length (natDigits (n div 10)) + n div 10) * 10 + n mod 10) rest"
      by (simp add: digitValue_digitChar)
    also have "(acc * 10 ^ length (natDigits (n div 10)) + n div 10) * 10 + n mod 10
                 = acc * 10 ^ length (natDigits n) + n"
      using False by (subst (2) natDigits.simps) (simp add: algebra_simps)
    finally show ?thesis .
  qed
qed

lemma digitsValue_natDigits_all: "digitsValue 10 0 (natDigits n) = n"
  using digitsValue_natDigits [of 0 n "[]"] by simp

lemma natDigits_units: "c \<in> set (natDigits n) \<Longrightarrow> \<exists>d<10. c = digitChar d"
proof (induction n rule: natDigits.induct)
  case (1 n)
  show ?case
  proof (cases "n < 10")
    case True
    with "1.prems" show ?thesis by (subst (asm) natDigits.simps) auto
  next
    case False
    with "1.prems" have "c \<in> set (natDigits (n div 10)) \<or> c = digitChar (n mod 10)"
      by (subst (asm) natDigits.simps) auto
    then show ?thesis
    proof
      assume "c \<in> set (natDigits (n div 10))"
      with False "1.IH" show ?thesis by blast
    next
      assume "c = digitChar (n mod 10)"
      moreover have "n mod 10 < 10" by simp
      ultimately show ?thesis by blast
    qed
  qed
qed

lemma natDigits_nonempty: "natDigits n \<noteq> []"
  by (subst natDigits.simps) simp

lemma natDigits_hd: "\<exists>d<10. \<exists>ds. natDigits n = digitChar d # ds"
proof -
  obtain c ds where cs: "natDigits n = c # ds" using natDigits_nonempty [of n] by (cases "natDigits n") auto
  then have "c \<in> set (natDigits n)" by simp
  from natDigits_units [OF this] cs show ?thesis by blast
qed

lemma parseDigits_natDigits: "parseDigits 10 (natDigits n) = Some n"
proof -
  obtain d ds where d: "d < 10" and cs: "natDigits n = digitChar d # ds" using natDigits_hd by blast
  have "parseDigits 10 (natDigits n) = Some (digitsValue 10 0 (natDigits n))"
    unfolding cs by (simp add: parseDigits_def digitValue_digitChar [OF d])
  then show ?thesis by (simp add: digitsValue_natDigits_all)
qed

lemma parseUnsigned_cases:
  "(s = [] \<Longrightarrow> R) \<Longrightarrow> (\<And>a. s = [a] \<Longrightarrow> R) \<Longrightarrow> (\<And>a b r. s = a # b # r \<Longrightarrow> R) \<Longrightarrow> R"
  by (cases s; cases "tl s") auto

lemma parseUnsigned_plain:
  "\<forall>c\<in>set s. c \<noteq> 0x78 \<and> c \<noteq> 0x58 \<Longrightarrow> parseUnsigned s = parseDigits 10 s"
  by (cases s rule: parseUnsigned_cases) (simp_all add: parseUnsigned_def)

lemma parseUnsigned_natDigits: "parseUnsigned (natDigits n) = Some n"
proof -
  have "c \<noteq> 0x78 \<and> c \<noteq> 0x58" if "c \<in> set (natDigits n)" for c
  proof -
    from natDigits_units [OF that] obtain d where d: "d < 10" and c: "c = digitChar d" by blast
    from digitChar_plain [OF d] show ?thesis unfolding c by (elim conjE) (rule conjI)
  qed
  then have "\<forall>c\<in>set (natDigits n). c \<noteq> 0x78 \<and> c \<noteq> 0x58" ..
  then have "parseUnsigned (natDigits n) = parseDigits 10 (natDigits n)"
    by (rule parseUnsigned_plain)
  then show ?thesis by (simp only: parseDigits_natDigits)
qed

lemma unsignedToString_small: "m < 10 ^ 21 \<Longrightarrow> unsignedToString m = natDigits m"
  by (simp add: unsignedToString_def)

lemma Number_toString_small:
  "\<bar>i\<bar> < 10 ^ 21 \<Longrightarrow>
     Number_toString i = (if i < 0 then 0x2D # natDigits (nat (- i)) else natDigits (nat i))"
proof -
  assume b: "\<bar>i\<bar> < 10 ^ 21"
  then have "nat \<bar>i\<bar> < nat (10 ^ 21)" by (simp only: nat_less_eq_zless abs_ge_zero)
  then have "nat \<bar>i\<bar> < 10 ^ 21" by simp
  then have "unsignedToString (nat \<bar>i\<bar>) = natDigits (nat \<bar>i\<bar>)" by (rule unsignedToString_small)
  then show ?thesis by (cases "i < 0") (simp_all add: Number_toString_def)
qed

lemma parseInt_Number_toString: "\<bar>i\<bar> < 10 ^ 21 \<Longrightarrow> parseInt (Number_toString i) = Some i"
proof (cases "i < 0")
  assume b: "\<bar>i\<bar> < 10 ^ 21"
  case True
  have ws: "\<not> isWhiteSpace 0x2D" by (simp add: isWhiteSpace_def)
  from True ws show ?thesis
    by (simp add: parseInt_def Number_toString_small [OF b] trimStart_def parseUnsigned_natDigits)
next
  assume b: "\<bar>i\<bar> < 10 ^ 21"
  case False
  obtain d ds where d: "d < 10" and cs: "natDigits (nat i) = digitChar d # ds" using natDigits_hd by blast
  from digitChar_plain [OF d] have p: "\<not> isWhiteSpace (digitChar d)" "digitChar d \<noteq> 0x2D" "digitChar d \<noteq> 0x2B"
    by simp_all
  have "parseInt (natDigits (nat i)) = map_option int (parseUnsigned (natDigits (nat i)))"
    unfolding cs using p by (simp add: parseInt_def trimStart_def)
  with False show ?thesis by (simp add: Number_toString_small [OF b] parseUnsigned_natDigits)
qed

lemma rowTaskId_small: "\<bar>i\<bar> < 10 ^ 21 \<Longrightarrow> rowTaskId i = Some i"
  by (simp add: rowTaskId_def parseInt_Number_toString)

section \<open>Positions in the task list\<close>

lemma findIndex_None: "(findIndex P xs = None) = (\<forall>x\<in>set xs. \<not> P x)"
  by (induction xs) auto

lemma findIndex_SomeI:
  "k < length xs \<Longrightarrow> P (xs ! k) \<Longrightarrow> (\<forall>j<k. \<not> P (xs ! j)) \<Longrightarrow> findIndex P xs = Some k"
proof (induction xs arbitrary: k)
  case Nil
  then show ?case by simp
next
  case (Cons x xs)
  show ?case
  proof (cases k)
    case 0
    with Cons.prems(2) show ?thesis by simp
  next
    case (Suc m)
    from Cons.prems(3) Suc have nx: "\<not> P x" by fastforce
    have "\<not> P (xs ! j)" if "j < m" for j
    proof -
      from that Suc have "Suc j < k" by simp
      with Cons.prems(3) have "\<not> P ((x # xs) ! Suc j)" by blast
      then show ?thesis by simp
    qed
    moreover from Cons.prems(1,2) Suc have "m < length xs" "P (xs ! m)" by simp_all
    ultimately have "findIndex P xs = Some m" using Cons.IH by blast
    with nx Suc show ?thesis by simp
  qed
qed

lemma findIndex_SomeD:
  "findIndex P xs = Some k \<Longrightarrow> k < length xs \<and> P (xs ! k) \<and> (\<forall>j<k. \<not> P (xs ! j))"
proof (induction xs arbitrary: k)
  case Nil
  then show ?case by simp
next
  case (Cons x xs)
  show ?case
  proof (cases "P x")
    case True
    with Cons.prems have "k = 0" by simp
    with True show ?thesis by simp
  next
    case False
    with Cons.prems obtain m where m: "findIndex P xs = Some m" and k: "k = Suc m"
      by auto
    from Cons.IH [OF m] have ih: "m < length xs" "P (xs ! m)" "\<forall>j<m. \<not> P (xs ! j)" by simp_all
    have "\<not> P ((x # xs) ! j)" if "j < k" for j
    proof (cases j)
      case 0
      with False show ?thesis by simp
    next
      case (Suc j')
      with that k have "j' < m" by simp
      with ih(3) Suc show ?thesis by simp
    qed
    with ih(1,2) k show ?thesis by simp
  qed
qed

section \<open>Submissions\<close>

lemma validateTitle_cong:
  "titleValue s = titleValue s' \<Longrightarrow> fst (validateTitle s) = fst (validateTitle s')"
  by (simp add: validateTitle_fst)

lemma addTask_invalid:
  "\<not> fst (validateTitle s) \<Longrightarrow> addTask now s = snd (validateTitle (s\<lparr>isTitleInputDirty := True\<rparr>))"
  by (simp add: addTask_def case_prod_beta validateTitle_dirty)

lemma updateTask_invalid:
  "\<not> fst (validateTitle s) \<Longrightarrow> updateTask s = snd (validateTitle (s\<lparr>isTitleInputDirty := True\<rparr>))"
  by (simp add: updateTask_def case_prod_beta validateTitle_dirty)

lemma runHandler_invalid:
  assumes "\<not> fst (validateTitle s)"
  shows "tasks (runHandler h now s) = tasks s"
    and "storage (runHandler h now s) = storage s"
    and "titleValue (runHandler h now s) = titleValue s"
  using assms
  by (cases h; simp add: runHandler_def addTask_invalid updateTask_invalid validateTitle_frame)+

lemma dispatch_invalid:
  "\<not> fst (validateTitle s) \<Longrightarrow>
     tasks (dispatch hs now s) = tasks s \<and> storage (dispatch hs now s) = storage s"
proof (induction hs arbitrary: s)
  case Nil
  then show ?case by simp
next
  case (Cons h hs)
  let ?s' = "if h \<in> set (submitListeners s) then runHandler h now s else s"
  have same: "tasks ?s' = tasks s" "storage ?s' = storage s" "titleValue ?s' = titleValue s"
    using Cons.prems by (simp_all add: runHandler_invalid)
  from same(3) Cons.prems have "\<not> fst (validateTitle ?s')"
    using validateTitle_cong [of ?s' s] by simp
  from Cons.IH [OF this] same show ?case by simp
qed

text \<open>
  C4. A submission with an invalid title (trimmed length outside 5..50) is refused before
  anything is changed or stored: after \<^verbatim>\<open>addTask\<close>, after \<^verbatim>\<open>updateTask\<close> and after the
  dispatch of the submit event to whatever listeners are registered, the task list and
  the stored item are what they were.
\<close>

theorem invalid_title_rejected:
  assumes "\<not> fst (validateTitle s)"
  shows "tasks (addTask now s) = tasks s \<and> storage (addTask now s) = storage s \<and>
         tasks (updateTask s) = tasks s \<and> storage (updateTask s) = storage s \<and>
         tasks (submit now s) = tasks s \<and> storage (submit now s) = storage s"
proof -
  have "tasks (addTask now s) = tasks s" "storage (addTask now s) = storage s"
    using assms by (simp_all add: addTask_invalid validateTitle_frame)
  moreover have "tasks (updateTask s) = tasks s" "storage (updateTask s) = storage s"
    using assms by (simp_all add: updateTask_invalid validateTitle_frame)
  moreover have "tasks (submit now s) = tasks s \<and> storage (submit now s) = storage s"
    unfolding submit_def using assms by (rule dispatch_invalid)
  ultimately show ?thesis by simp
qed

lemma trim_Hi: "trim (js ''Hi'') = js ''Hi''"
  by (simp add: js_def trim_def trimStart_def trimEnd_def isWhiteSpace_def)

theorem invalid_title_rejected_witness:
  "\<not> fst (validateTitle ((sampleState [sampleTask 1])\<lparr>titleValue := js ''Hi'', descriptionValue := []\<rparr>)) \<and>
   tasks (submit 1750809600000 ((sampleState [sampleTask 1])\<lparr>titleValue := js ''Hi'', descriptionValue := []\<rparr>))
     = [sampleTask 1] \<and>
   storage (submit 1750809600000 ((sampleState [sampleTask 1])\<lparr>titleValue := js ''Hi'', descriptionValue := []\<rparr>))
     = Some (JSON_stringify [sampleTask 1])"
proof -
  let ?s = "(sampleState [sampleTask 1])\<lparr>titleValue := js ''Hi'', descriptionValue := []\<rparr>"
  have h: "\<not> fst (validateTitle ?s)"
    by (simp add: validateTitle_fst trim_Hi) (simp add: js_def)
  have "tasks ?s = [sampleTask 1]" "storage ?s = Some (JSON_stringify [sampleTask 1])"
    by (simp_all add: sampleState_def freshPage_def)
  with invalid_title_rejected [OF h, of 1750809600000] h show ?thesis by simp
qed

section \<open>Updating\<close>

lemma parsedEditingId_stored:
  "editingId s = Some (Number_toString i) \<Longrightarrow> \<bar>i\<bar> < 10 ^ 21 \<Longrightarrow> parsedEditingId s = Some i"
  by (simp add: parsedEditingId_def parseInt_Number_toString)

lemma parsedEditingId_cong:
  "editingId s = editingId s' \<Longrightarrow> parsedEditingId s = parsedEditingId s'"
  by (simp add: parsedEditingId_def)

lemma updateTask_absent:
  assumes "fst (validateTitle s)"
    and "findIndex (\<lambda>t. Some (task_id t) = parsedEditingId s) (tasks s) = None"
  shows "updateTask s = snd (validateTitle (s\<lparr>isTitleInputDirty := True\<rparr>))"
proof -
  let ?s2 = "snd (validateTitle (s\<lparr>isTitleInputDirty := True\<rparr>))"
  have e: "parsedEditingId ?s2 = parsedEditingId s"
    by (rule parsedEditingId_cong) (simp add: validateTitle_frame)
  have t: "tasks ?s2 = tasks s" by (simp add: validateTitle_frame)
  from assms show ?thesis
    by (simp add: updateTask_def case_prod_beta validateTitle_dirty Let_def e t)
qed

lemma updateTask_present:
  assumes "fst (validateTitle s)"
    and "findIndex (\<lambda>t. Some (task_id t) = parsedEditingId s) (tasks s) = Some k"
  shows "tasks (updateTask s) = updatedTasks s k"
    and "storage (updateTask s) = Some (JSON_stringify (updatedTasks s k))"
    and "submitListeners (updateTask s)
           = addEventListener AddTask (removeEventListener UpdateTask (submitListeners s))"
    and "editingId (updateTask s) = None"
    and "buttonText (updateTask s) = js ''Agregar Tarea''"
proof -
  let ?s2 = "snd (validateTitle (s\<lparr>isTitleInputDirty := True\<rparr>))"
  have e: "parsedEditingId ?s2 = parsedEditingId s"
    by (rule parsedEditingId_cong) (simp add: validateTitle_frame)
  have t: "tasks ?s2 = tasks s" "titleValue ?s2 = titleValue s"
    "descriptionValue ?s2 = descriptionValue s" "submitListeners ?s2 = submitListeners s"
    by (simp_all add: validateTitle_frame)
  from assms(2) have k: "k < length (tasks s)" by (auto dest: findIndex_SomeD)
  note defs = updateTask_def case_prod_beta validateTitle_dirty Let_def e t
    validateTitle_frame focusTitle_frame saveTasks_def resetForm_def updatedTasks_def
  from assms k show "tasks (updateTask s) = updatedTasks s k" by (simp add: defs)
  from assms k show "storage (updateTask s) = Some (JSON_stringify (updatedTasks s k))"
    by (simp add: defs)
  from assms show "submitListeners (updateTask s)
           = addEventListener AddTask (removeEventListener UpdateTask (submitListeners s))"
    by (simp add: defs)
  from assms show "editingId (updateTask s) = None" by (simp add: defs)
  from assms show "buttonText (updateTask s) = js ''Agregar Tarea''" by (simp add: defs)
qed

lemma updatedTasks_ids:
  "k < length (tasks s) \<Longrightarrow> map task_id (updatedTasks s k) = map task_id (tasks s)"
  by (simp add: updatedTasks_def map_update list_update_same_conv)

lemma updatedTasks_completed:
  "k < length (tasks s) \<Longrightarrow> map completed (updatedTasks s k) = map completed (tasks s)"
  by (simp add: updatedTasks_def map_update list_update_same_conv)

text \<open>
  C3. With a valid title in the form and the button's editing id reading as the id \<open>i\<close>
  (what \<^verbatim>\<open>parseInt\<close> makes of \<^verbatim>\<open>dataset.editingId\<close>, as after begin edit on \<open>i\<close>),
  \<^verbatim>\<open>updateTask\<close> leaves the list and the stored item unchanged when no task has id \<open>i\<close>;
  otherwise it replaces the title and the description of the first task with that id (the
  only one when ids are unique) by the trimmed form values, at its position and with
  every other task as it was. In both cases the ids and the completed flags of the whole
  list are unchanged.
\<close>

theorem updateTask_frame:
  assumes "fst (validateTitle s)" and "parsedEditingId s = Some i"
  shows "(i \<notin> set (map task_id (tasks s)) \<longrightarrow>
            tasks (updateTask s) = tasks s \<and> storage (updateTask s) = storage s) \<and>
         (\<forall>k. k < length (tasks s) \<and> task_id (tasks s ! k) = i \<and> (\<forall>j<k. task_id (tasks s ! j) \<noteq> i) \<longrightarrow>
            tasks (updateTask s) =
              (tasks s)[k := (tasks s ! k)\<lparr>title := trim (titleValue s),
                                             description := trim (descriptionValue s)\<rparr>]) \<and>
         map task_id (tasks (updateTask s)) = map task_id (tasks s) \<and>
         map completed (tasks (updateTask s)) = map completed (tasks s)"
proof -
  let ?P = "\<lambda>t. Some (task_id t) = parsedEditingId s"
  note eid = assms(2)
  have absent: "tasks (updateTask s) = tasks s \<and> storage (updateTask s) = storage s"
    if "i \<notin> set (map task_id (tasks s))"
  proof -
    from that have "\<forall>t\<in>set (tasks s). \<not> ?P t" by (auto simp: eid)
    then have "findIndex ?P (tasks s) = None" by (simp only: findIndex_None)
    from updateTask_absent [OF assms(1) this] show ?thesis by (simp add: validateTitle_frame)
  qed
  have present: "tasks (updateTask s) = updatedTasks s k"
    if "k < length (tasks s)" "task_id (tasks s ! k) = i" "\<forall>j<k. task_id (tasks s ! j) \<noteq> i" for k
  proof -
    from that have "findIndex ?P (tasks s) = Some k"
      by (intro findIndex_SomeI) (simp_all add: eid)
    from updateTask_present(1) [OF assms(1) this] show ?thesis .
  qed
  have ids: "map task_id (tasks (updateTask s)) = map task_id (tasks s) \<and>
             map completed (tasks (updateTask s)) = map completed (tasks s)"
  proof (cases "findIndex ?P (tasks s)")
    case None
    from updateTask_absent [OF assms(1) this] show ?thesis by (simp add: validateTitle_frame)
  next
    case (Some k)
    then have "k < length (tasks s)" by (auto dest: findIndex_SomeD)
    with updateTask_present(1) [OF assms(1) Some] show ?thesis
      by (simp add: updatedTasks_ids updatedTasks_completed)
  qed
  from absent present ids show ?thesis unfolding updatedTasks_def by blast
qed

lemma trim_samples:
  "trim (js ''Buy milk'') = js ''Buy milk''"
  "trim (js '' eggs '') = js ''eggs''"
  by (simp_all add: js_def trim_def trimStart_def trimEnd_def isWhiteSpace_def)

theorem updateTask_frame_witness:
  "tasks (updateTask (editingState [sampleTask 1, sampleTask 2, sampleTask 3] 2 (js ''Buy milk'') (js '' eggs '')))
     = [sampleTask 1, (sampleTask 2)\<lparr>title := js ''Buy milk'', description := js ''eggs''\<rparr>, sampleTask 3] \<and>
   tasks (updateTask (editingState [sampleTask 1, sampleTask 2, sampleTask 3] 9 (js ''Buy milk'') (js '' eggs '')))
     = [sampleTask 1, sampleTask 2, sampleTask 3]"
proof -
  let ?ts = "[sampleTask 1, sampleTask 2, sampleTask 3]"
  let ?a = "editingState ?ts 2 (js ''Buy milk'') (js '' eggs '')"
  let ?b = "editingState ?ts 9 (js ''Buy milk'') (js '' eggs '')"
  have fields: "tasks ?a = ?ts" "tasks ?b = ?ts" "titleValue ?a = js ''Buy milk''"
    "descriptionValue ?a = js '' eggs ''" "titleValue ?b = js ''Buy milk''"
    "editingId ?a = Some (Number_toString 2)" "editingId ?b = Some (Number_toString 9)"
    by (simp_all add: editingState_def sampleState_def freshPage_def)
  have va: "fst (validateTitle ?a)" and vb: "fst (validateTitle ?b)"
    by (simp_all add: validateTitle_fst fields trim_samples) (simp_all add: js_def)
  have k: "(1::nat) < length (tasks ?a) \<and> task_id (tasks ?a ! 1) = 2 \<and> (\<forall>j<1. task_id (tasks ?a ! j) \<noteq> 2)"
    unfolding fields by (simp add: sampleTask_def)
  have n: "9 \<notin> set (map task_id (tasks ?b))"
    unfolding fields by (simp add: sampleTask_def)
  have pa: "parsedEditingId ?a = Some 2" by (rule parsedEditingId_stored [OF fields(6)]) simp
  have pb: "parsedEditingId ?b = Some 9" by (rule parsedEditingId_stored [OF fields(7)]) simp
  from updateTask_frame [OF va pa] k
  have "tasks (updateTask ?a) =
          (tasks ?a)[1 := (tasks ?a ! 1)\<lparr>title := trim (titleValue ?a), description := trim (descriptionValue ?a)\<rparr>]"
    by blast
  then have a: "tasks (updateTask ?a) = [sampleTask 1, (sampleTask 2)\<lparr>title := js ''Buy milk'', description := js ''eggs''\<rparr>, sampleTask 3]"
    by (simp add: fields trim_samples)
  from updateTask_frame [OF vb pb] n have "tasks (updateTask ?b) = tasks ?b" by blast
  with a show ?thesis by (simp add: fields)
qed

section \<open>The edit session\<close>

lemma find_distinct_id:
  "distinct (map task_id ts) \<Longrightarrow> b \<in> set ts \<Longrightarrow> find (\<lambda>t. task_id t = task_id b) ts = Some b"
  by (induction ts) (auto simp: image_iff)

lemma editTask_present:
  assumes "find (\<lambda>t. task_id t = i) (tasks s) = Some t"
  shows "tasks (editTask i s) = tasks s"
    and "storage (editTask i s) = storage s"
    and "editingId (editTask i s) = Some (Number_toString i)"
    and "buttonText (editTask i s) = js ''Actualizar Tarea''"
    and "titleValue (editTask i s) = title t"
    and "descriptionValue (editTask i s) = description t"
    and "submitListeners (editTask i s)
           = addEventListener UpdateTask (removeEventListener AddTask (submitListeners s))"
  using assms by (simp_all add: editTask_def Let_def validateTitle_frame)

lemma onTitleInput_frame:
  "tasks (onTitleInput v s) = tasks s"
  "storage (onTitleInput v s) = storage s"
  "titleValue (onTitleInput v s) = v"
  "descriptionValue (onTitleInput v s) = descriptionValue s"
  "editingId (onTitleInput v s) = editingId s"
  "buttonText (onTitleInput v s) = buttonText s"
  "submitListeners (onTitleInput v s) = submitListeners s"
  by (simp_all add: onTitleInput_def Let_def validateTitle_frame)

lemma onDescriptionInput_frame:
  "tasks (onDescriptionInput v s) = tasks s"
  "storage (onDescriptionInput v s) = storage s"
  "titleValue (onDescriptionInput v s) = titleValue s"
  "descriptionValue (onDescriptionInput v s) = v"
  "editingId (onDescriptionInput v s) = editingId s"
  "buttonText (onDescriptionInput v s) = buttonText s"
  "submitListeners (onDescriptionInput v s) = submitListeners s"
  by (simp_all add: onDescriptionInput_def)

lemma handler_cases: "h = AddTask \<or> h = UpdateTask"
  by (cases h) simp_all

lemma edit_listeners:
  "\<exists>hs. addEventListener UpdateTask (removeEventListener AddTask ls) = UpdateTask # hs
        \<and> set hs \<subseteq> {UpdateTask}"
proof -
  let ?r = "removeEventListener AddTask ls"
  have r: "set ?r \<subseteq> {UpdateTask}"
    using handler_cases by (auto simp: removeEventListener_def)
  show ?thesis
  proof (cases ?r)
    case Nil
    then show ?thesis by (simp add: addEventListener_def)
  next
    case (Cons h hs)
    with r have "h = UpdateTask" "set hs \<subseteq> {UpdateTask}" by auto
    with Cons show ?thesis by (simp add: addEventListener_def)
  qed
qed

lemma restored_listeners:
  "set ls \<subseteq> {UpdateTask} \<Longrightarrow> addEventListener AddTask (removeEventListener UpdateTask ls) = [AddTask]"
proof -
  assume "set ls \<subseteq> {UpdateTask}"
  then have "removeAll UpdateTask ls = []" by (induction ls) auto
  then show ?thesis by (simp add: addEventListener_def removeEventListener_def)
qed

lemma dispatch_skipped:
  "\<forall>h\<in>set hs. h \<notin> set (submitListeners s) \<Longrightarrow> dispatch hs now s = s"
  by (induction hs) simp_all

lemma submit_editing:
  assumes ls: "submitListeners s = UpdateTask # hs" "set hs \<subseteq> {UpdateTask}"
    and v: "fst (validateTitle s)"
    and k: "findIndex (\<lambda>t. Some (task_id t) = parsedEditingId s) (tasks s) = Some k"
  shows "submit now s = updateTask s" and "submitListeners (updateTask s) = [AddTask]"
proof -
  from ls have "set (submitListeners s) \<subseteq> {UpdateTask}" by simp
  with updateTask_present(3) [OF v k]
  show after: "submitListeners (updateTask s) = [AddTask]" by (simp add: restored_listeners)
  have "dispatch hs now (updateTask s) = updateTask s"
  proof (rule dispatch_skipped)
    show "\<forall>h\<in>set hs. h \<notin> set (submitListeners (updateTask s))"
      using ls(2) after by auto
  qed
  with ls(1) show "submit now s = updateTask s" by (simp add: submit_def runHandler_def)
qed

lemma update_distinct_map:
  assumes d: "distinct (map task_id ts)" and k: "k < length ts" and i: "task_id (ts ! k) = i"
  shows "ts[k := f (ts ! k)] = map (\<lambda>t. if task_id t = i then f t else t) ts"
proof (rule nth_equalityI)
  show "length (ts[k := f (ts ! k)]) = length (map (\<lambda>t. if task_id t = i then f t else t) ts)"
    by simp
next
  fix j assume "j < length (ts[k := f (ts ! k)])"
  then have j: "j < length ts" by simp
  show "ts[k := f (ts ! k)] ! j = map (\<lambda>t. if task_id t = i then f t else t) ts ! j"
  proof (cases "j = k")
    case True
    with k i show ?thesis by simp
  next
    case False
    from d j k False have "map task_id ts ! j \<noteq> map task_id ts ! k"
      by (simp only: nth_eq_iff_index_eq length_map not_False_eq_True)
    with j k i have "task_id (ts ! j) \<noteq> i" by simp
    with j False show ?thesis by simp
  qed
qed

lemma validateTitle_specValid: "fst (validateTitle s) = specValid (titleValue s)"
  by (simp add: validateTitle_fst specValid_def length_trim)

lemma edit_then_submit:
  assumes t: "tasks s = [a, b]" and ls: "submitListeners s = [AddTask]"
    and fa: "find (\<lambda>t. task_id t = i) [a, b] = Some x"
    and fb: "find (\<lambda>t. task_id t = j) [a, b] = Some y"
    and p: "parseInt (Number_toString j) = Some (task_id a)"
  shows "tasks (submit now (onDescriptionInput (js '' eggs '') (onTitleInput (js ''Buy milk'')
           (editTask j (editTask i s)))))
         = [a\<lparr>title := js ''Buy milk'', description := js ''eggs''\<rparr>, b]"
    and "editingId (editTask j (editTask i s)) = Some (Number_toString j)"
    and "titleValue (editTask j (editTask i s)) = title y"
proof -
  let ?e1 = "editTask i s"
  let ?e = "editTask j ?e1"
  let ?s3 = "onDescriptionInput (js '' eggs '') (onTitleInput (js ''Buy milk'') ?e)"
  from fa t have fa': "find (\<lambda>t. task_id t = i) (tasks s) = Some x" by simp
  note e1 = editTask_present [OF fa']
  from fb t e1(1) have fb': "find (\<lambda>t. task_id t = j) (tasks ?e1) = Some y" by simp
  note e = editTask_present [OF fb']
  show "editingId ?e = Some (Number_toString j)" by (rule e(3))
  show "titleValue ?e = title y" by (rule e(5))
  have le: "submitListeners ?e = [UpdateTask]"
    by (simp add: e(7) e1(7) ls addEventListener_def removeEventListener_def)
  have f3: "tasks ?s3 = [a, b]" "editingId ?s3 = Some (Number_toString j)"
    "submitListeners ?s3 = [UpdateTask]" "titleValue ?s3 = js ''Buy milk''"
    "descriptionValue ?s3 = js '' eggs ''"
    by (simp_all add: onDescriptionInput_frame onTitleInput_frame e(1) e1(1) t e(3) le)
  have v: "fst (validateTitle ?s3)"
    by (simp add: validateTitle_fst f3 trim_samples) (simp add: js_def)
  have eid: "parsedEditingId ?s3 = Some (task_id a)" by (simp add: parsedEditingId_def f3(2) p)
  have k: "findIndex (\<lambda>t. Some (task_id t) = parsedEditingId ?s3) (tasks ?s3) = Some 0"
    by (simp add: f3(1) eid)
  have hs: "set ([] :: handler list) \<subseteq> {UpdateTask}" by simp
  from submit_editing(1) [OF f3(3) hs v k] have "submit now ?s3 = updateTask ?s3" .
  then have "tasks (submit now ?s3) = updatedTasks ?s3 0"
    by (simp only: updateTask_present(1) [OF v k])
  also have "\<dots> = [a\<lparr>title := js ''Buy milk'', description := js ''eggs''\<rparr>, b]"
    by (simp add: updatedTasks_def f3 trim_samples)
  finally show "tasks (submit now ?s3)
      = [a\<lparr>title := js ''Buy milk'', description := js ''eggs''\<rparr>, b]" .
qed

lemma natDigits_21: "natDigits 21 = js ''21''"
  by (simp add: natDigits.simps digitChar_def js_def)

lemma natDigits_far: "natDigits (10 ^ 21) = js ''1000000000000000000000''"
  by (simp add: natDigits.simps digitChar_def js_def)

lemma js_far_digits: "js ''1000000000000000000000'' = 0x31 # replicate 21 0x30"
  by (simp add: js_def eval_nat_numeral)

lemma Number_toString_far: "Number_toString (10 ^ 21) = js ''1e+21''"
proof -
  have "unsignedToString (10 ^ 21) = js ''1e+21''"
    unfolding unsignedToString_def natDigits_far js_far_digits
    by (simp add: fractionPart_def dropTrailingZeros_def natDigits_21) (simp add: js_def)
  then show ?thesis by (simp add: Number_toString_def)
qed

lemma parseInt_far: "parseInt (js ''1e+21'') = Some 1"
  by (simp add: js_def parseInt_def trimStart_def isWhiteSpace_def parseUnsigned_def
      parseDigits_def digitValue_def)

text \<open>
  C7 as stated fails when A and B carry the same id, which \<^verbatim>\<open>addTask\<close> does not
  exclude. The list holds two different tasks with id 7. Begin edit on the first and then
  on the second loads the first one into the form, because \<^verbatim>\<open>tasks.find\<close> stops at
  the first task with the id; the submission of a valid title then rewrites the first task
  and leaves the second, the one whose edit button was used last, as it was.
\<close>

theorem second_edit_rewrites_first_twin:
  "sampleTask 7 \<noteq> twinTask \<and>
   tasks twinState = [sampleTask 7, twinTask] \<and>
   titleValue twinEdit = title (sampleTask 7) \<and>
   tasks twinSubmitted
     = [(sampleTask 7)\<lparr>title := js ''Buy milk'', description := js ''eggs''\<rparr>, twinTask]"
proof -
  have ne: "sampleTask 7 \<noteq> twinTask" by (simp add: sampleTask_def twinTask_def js_def)
  have t: "tasks twinState = [sampleTask 7, twinTask]"
    and ls: "submitListeners twinState = [AddTask]"
    by (simp_all add: twinState_def sampleState_def)
  have fa: "find (\<lambda>t. task_id t = task_id (sampleTask 7)) [sampleTask 7, twinTask] = Some (sampleTask 7)"
    by simp
  have fb: "find (\<lambda>t. task_id t = task_id twinTask) [sampleTask 7, twinTask] = Some (sampleTask 7)"
    by (simp add: sampleTask_def twinTask_def)
  have "\<bar>task_id twinTask\<bar> < 10 ^ 21" by (simp add: twinTask_def)
  then have "parseInt (Number_toString (task_id twinTask)) = Some (task_id twinTask)"
    by (rule parseInt_Number_toString)
  then have p: "parseInt (Number_toString (task_id twinTask)) = Some (task_id (sampleTask 7))"
    by (simp add: sampleTask_def twinTask_def)
  note r = edit_then_submit [OF t ls fa fb p]
  from ne t r(1,3) show ?thesis by (simp only: twinEdit_def twinSubmitted_def simp_thms)
qed

text \<open>
  Ids have to stay below \<open>10 ^ 21\<close> as well. With the ids 1 and \<open>10 ^ 21\<close>, begin edit
  on the second task stores \<^verbatim>\<open>1e+21\<close> in \<^verbatim>\<open>dataset.editingId\<close>; \<^verbatim>\<open>parseInt\<close>
  reads 1 from it, and the submission rewrites the task with id 1.
\<close>

lemma large_id_edit_rewrites_other:
  "editingId farEdit = Some (js ''1e+21'') \<and>
   parsedEditingId farEdit = Some 1 \<and>
   tasks farSubmitted
     = [(sampleTask 1)\<lparr>title := js ''Buy milk'', description := js ''eggs''\<rparr>, sampleTask (10 ^ 21)]"
proof -
  let ?b = "sampleTask (10 ^ 21)"
  have ib: "task_id ?b = 10 ^ 21" and ia: "task_id (sampleTask 1) = 1" by (simp_all add: sampleTask_def)
  have t: "tasks farState = [sampleTask 1, ?b]"
    and ls: "submitListeners farState = [AddTask]"
    by (simp_all add: farState_def sampleState_def)
  have fa: "find (\<lambda>t. task_id t = task_id (sampleTask 1)) [sampleTask 1, ?b] = Some (sampleTask 1)"
    by simp
  have fb: "find (\<lambda>t. task_id t = task_id ?b) [sampleTask 1, ?b] = Some ?b"
    by (simp add: sampleTask_def)
  have p: "parseInt (Number_toString (task_id ?b)) = Some (task_id (sampleTask 1))"
    by (simp only: ib ia Number_toString_far parseInt_far)
  note r = edit_then_submit [OF t ls fa fb p]
  from r(2) have e: "editingId farEdit = Some (js ''1e+21'')"
    by (simp only: farEdit_def ib Number_toString_far)
  then have "parsedEditingId farEdit = Some 1" by (simp add: parsedEditingId_def parseInt_far)
  with e r(1) show ?thesis by (simp only: farSubmitted_def farEdit_def simp_thms)
qed

text \<open>
  C7, amended. In a store whose ids are pairwise distinct, begin edit on task A and then
  on another task B whose id is below \<open>10 ^ 21\<close> in magnitude (as every clock reading is)
  leaves the button's editing id at B's id. Whatever is then typed into the form, a
  submission with a valid title rewrites the title and description of B only: every other
  task, A among them, is as it was, and the form is back in adding mode.
\<close>

theorem second_edit_retargets:
  assumes "distinct (map task_id (tasks s))" and "a \<in> set (tasks s)" and "b \<in> set (tasks s)"
    and "a \<noteq> b" and "specValid T" and "\<bar>task_id b\<bar> < 10 ^ 21"
  shows "let e = editTask (task_id b) (editTask (task_id a) s);
             s' = submit now (onDescriptionInput D (onTitleInput T e))
         in editingId e = Some (Number_toString (task_id b)) \<and>
            tasks s' = map (\<lambda>t. if task_id t = task_id b
                                 then t\<lparr>title := trim T, description := trim D\<rparr> else t) (tasks s) \<and>
            a \<in> set (tasks s') \<and> submitListeners s' = [AddTask] \<and> editingId s' = None"
proof -
  let ?e1 = "editTask (task_id a) s"
  let ?e = "editTask (task_id b) ?e1"
  let ?s3 = "onDescriptionInput D (onTitleInput T ?e)"
  let ?f = "\<lambda>t. t\<lparr>title := trim T, description := trim D\<rparr>"
  from assms(1,2) have fa: "find (\<lambda>t. task_id t = task_id a) (tasks s) = Some a"
    by (rule find_distinct_id)
  then have t1: "tasks ?e1 = tasks s" by (rule editTask_present(1))
  from assms(1,3) have "find (\<lambda>t. task_id t = task_id b) (tasks s) = Some b"
    by (rule find_distinct_id)
  then have fb: "find (\<lambda>t. task_id t = task_id b) (tasks ?e1) = Some b" by (simp only: t1)
  have te: "tasks ?e = tasks s" using editTask_present(1) [OF fb] t1 by simp
  have ee: "editingId ?e = Some (Number_toString (task_id b))" by (rule editTask_present(3) [OF fb])
  obtain hs where le: "submitListeners ?e = UpdateTask # hs" and hs: "set hs \<subseteq> {UpdateTask}"
    using edit_listeners [of "submitListeners ?e1"] editTask_present(7) [OF fb] by auto
  have f3: "tasks ?s3 = tasks s" "editingId ?s3 = Some (Number_toString (task_id b))"
    "submitListeners ?s3 = UpdateTask # hs" "titleValue ?s3 = T" "descriptionValue ?s3 = D"
    by (simp_all add: onDescriptionInput_frame onTitleInput_frame te ee le)
  from assms(5) f3(4) have v: "fst (validateTitle ?s3)" by (simp only: validateTitle_specValid)
  from f3(2) assms(6) have eid: "parsedEditingId ?s3 = Some (task_id b)"
    by (rule parsedEditingId_stored)
  let ?P = "\<lambda>t. Some (task_id t) = parsedEditingId ?s3"
  have "findIndex ?P (tasks ?s3) \<noteq> None"
    using assms(3) by (simp only: findIndex_None f3(1) eid) auto
  then obtain k where k: "findIndex ?P (tasks ?s3) = Some k" by auto
  from findIndex_SomeD [OF k] have kl: "k < length (tasks s)" and kb: "task_id (tasks s ! k) = task_id b"
    by (simp_all add: f3(1) eid)
  from submit_editing [OF f3(3) hs v k]
  have sub: "submit now ?s3 = updateTask ?s3" and ls: "submitListeners (updateTask ?s3) = [AddTask]"
    by simp_all
  have "tasks (updateTask ?s3) = updatedTasks ?s3 k" by (rule updateTask_present(1) [OF v k])
  also have "\<dots> = (tasks s)[k := ?f (tasks s ! k)]" by (simp only: updatedTasks_def f3)
  also have "\<dots> = map (\<lambda>t. if task_id t = task_id b then ?f t else t) (tasks s)"
    using assms(1) kl kb by (rule update_distinct_map)
  finally have res: "tasks (updateTask ?s3)
      = map (\<lambda>t. if task_id t = task_id b then ?f t else t) (tasks s)" .
  from assms(1) have "inj_on task_id (set (tasks s))" by (simp add: distinct_map)
  with assms(2,3,4) have "task_id a \<noteq> task_id b" by (auto dest: inj_onD)
  then have "a = (\<lambda>t. if task_id t = task_id b then ?f t else t) a" by simp
  then have "a \<in> (\<lambda>t. if task_id t = task_id b then ?f t else t) ` set (tasks s)"
    using assms(2) by (rule image_eqI)
  then have mem: "a \<in> set (tasks (updateTask ?s3))" by (simp only: res set_map)
  have "editingId (updateTask ?s3) = None" by (rule updateTask_present(4) [OF v k])
  with ee res mem ls show ?thesis by (simp only: Let_def sub)
qed

theorem second_edit_retargets_witness:
  "let e = editTask (task_id (sampleTask 2)) (editTask (task_id (sampleTask 1)) (sampleState [sampleTask 1, sampleTask 2]));
       s' = submit 1750809600000 (onDescriptionInput (js '' eggs '') (onTitleInput (js ''Buy milk'') e))
   in editingId e = Some (Number_toString (task_id (sampleTask 2))) \<and>
      tasks s' = map (\<lambda>t. if task_id t = task_id (sampleTask 2)
                           then t\<lparr>title := trim (js ''Buy milk''), description := trim (js '' eggs '')\<rparr> else t)
                     (tasks (sampleState [sampleTask 1, sampleTask 2])) \<and>
      sampleTask 1 \<in> set (tasks s') \<and> submitListeners s' = [AddTask] \<and> editingId s' = None"
proof -
  have t: "tasks (sampleState [sampleTask 1, sampleTask 2]) = [sampleTask 1, sampleTask 2]"
    by (simp add: sampleState_def)
  have d: "distinct (map task_id (tasks (sampleState [sampleTask 1, sampleTask 2])))"
    unfolding t by (simp add: sampleTask_def)
  have a: "sampleTask 1 \<in> set (tasks (sampleState [sampleTask 1, sampleTask 2]))"
    and b: "sampleTask 2 \<in> set (tasks (sampleState [sampleTask 1, sampleTask 2]))"
    unfolding t by simp_all
  have ne: "sampleTask 1 \<noteq> sampleTask 2" by (simp add: sampleTask_def)
  have v: "specValid (js ''Buy milk'')"
    by (simp add: specValid_def length_trim [symmetric] trim_samples) (simp add: js_def)
  have bd: "\<bar>task_id (sampleTask 2)\<bar> < 10 ^ 21" by (simp add: sampleTask_def)
  show ?thesis by (rule second_edit_retargets [OF d a b ne v bd])
qed

section \<open>Creating\<close>

lemma addTask_valid:
  assumes "fst (validateTitle s)"
  shows "tasks (addTask now s) =
           tasks s @ [\<lparr>task_id = now, title = trim (titleValue s),
                       description = trim (descriptionValue s), completed = False\<rparr>]"
    and "storage (addTask now s) = Some (JSON_stringify (tasks (addTask now s)))"
    and "submitListeners (addTask now s) = submitListeners s"
    and "editingId (addTask now s) = editingId s"
  using assms
  by (simp_all add: addTask_def case_prod_beta validateTitle_dirty Let_def validateTitle_frame
      focusTitle_frame saveTasks_def resetForm_def)

lemma addTask_split_enabled:
  assumes "\<not> buttonDisabled s"
  shows "tasks (addTask_split now s) =
           tasks s @ [\<lparr>task_id = now, title = trim (titleValue s),
                       description = trim (descriptionValue s), completed = False\<rparr>]"
    and "storage (addTask_split now s) = Some (JSON_stringify (tasks (addTask_split now s)))"
  using assms
  by (simp_all add: addTask_split_def Let_def focusTitle_frame saveTasks_def resetForm_def)

text \<open>
  What holds of creation in every state: one task is appended after the existing ones,
  not completed, with the trimmed form values, and its id is the clock reading. The id is
  new exactly when no task already has that reading as its id.
\<close>

lemma addTask_appends:
  assumes "fst (validateTitle s)"
  shows "\<exists>t. tasks (addTask now s) = tasks s @ [t] \<and> \<not> completed t \<and> task_id t = now \<and>
             title t = trim (titleValue s) \<and> description t = trim (descriptionValue s) \<and>
             (task_id t \<notin> set (map task_id (tasks s))) = (now \<notin> set (map task_id (tasks s)))"
  using addTask_valid(1) [OF assms, of now] by simp

text \<open>
  C2, at a state the claim does not survive. The list holds a task whose id is
  1750809600000 and the form holds a valid title; a submission at clock reading
  1750809600000 is accepted by both revisions of \<^verbatim>\<open>addTask\<close> and appends a task with the
  id of the existing one.
\<close>

theorem addTask_repeats_id:
  "fst (validateTitle clashState) \<and>
   map task_id (tasks clashState) = [1750809600000] \<and>
   map task_id (tasks (addTask 1750809600000 clashState)) = [1750809600000, 1750809600000] \<and>
   map task_id (tasks (addTask_split 1750809600000 clashState)) = [1750809600000, 1750809600000]"
proof -
  have f: "tasks clashState = [sampleTask 1750809600000]" "titleValue clashState = js ''Buy milk''"
    by (simp_all add: clashState_def onTitleInput_frame sampleState_def)
  have "\<not> buttonDisabled clashState"
    by (simp add: clashState_def onTitleInput_def validateTitle_def Let_def trim_samples)
      (simp add: js_def)
  note f = f this
  have v: "fst (validateTitle clashState)"
    by (simp add: validateTitle_fst f trim_samples) (simp add: js_def)
  have "map task_id (tasks (addTask 1750809600000 clashState)) = [1750809600000, 1750809600000]"
    by (simp add: addTask_valid(1) [OF v] f) (simp add: sampleTask_def)
  moreover have "map task_id (tasks (addTask_split 1750809600000 clashState)) = [1750809600000, 1750809600000]"
    by (simp add: addTask_split_enabled(1) [OF f(3)] f) (simp add: sampleTask_def)
  moreover have "map task_id (tasks clashState) = [1750809600000]"
    by (simp add: f) (simp add: sampleTask_def)
  ultimately show ?thesis using v by simp
qed

section \<open>A submission whose task is gone\<close>

lemma updateTask_absent_stays:
  assumes "fst (validateTitle s)"
    and "findIndex (\<lambda>t. Some (task_id t) = parsedEditingId s) (tasks s) = None"
  shows "tasks (updateTask s) = tasks s" and "storage (updateTask s) = storage s"
    and "submitListeners (updateTask s) = submitListeners s"
    and "editingId (updateTask s) = editingId s"
    and "buttonText (updateTask s) = buttonText s"
    and "titleValue (updateTask s) = titleValue s"
  by (simp_all add: updateTask_absent [OF assms] validateTitle_frame)

lemma deleteTask_frame:
  "submitListeners (deleteTask i s) = submitListeners s"
  "editingId (deleteTask i s) = editingId s"
  "buttonText (deleteTask i s) = buttonText s"
  "titleValue (deleteTask i s) = titleValue s"
  "descriptionValue (deleteTask i s) = descriptionValue s"
  "tasks (deleteTask i s) = filter (\<lambda>t. task_id t \<noteq> i) (tasks s)"
  "storage (deleteTask i s) = Some (JSON_stringify (filter (\<lambda>t. task_id t \<noteq> i) (tasks s)))"
  by (simp_all add: deleteTask_def saveTasks_def)

text \<open>
  C6, at a run the claim does not survive. The page shows one task with id 1. The user
  clicks its edit button, deletes it, types a valid title and submits. The task list
  stays empty, but the form is not restored: \<^verbatim>\<open>updateTask\<close> is still the submit listener,
  the button still reads \<^verbatim>\<open>Actualizar Tarea\<close> and still carries the editing id 1, and a
  further valid submission still creates nothing.
\<close>

theorem updateTask_missing_task_strands_form:
  "tasks (fold fire strandedRun (sampleState [sampleTask 1])) = [] \<and>
   submitListeners (fold fire strandedRun (sampleState [sampleTask 1])) = [UpdateTask] \<and>
   editingId (fold fire strandedRun (sampleState [sampleTask 1])) = Some (Number_toString 1) \<and>
   buttonText (fold fire strandedRun (sampleState [sampleTask 1])) = js ''Actualizar Tarea'' \<and>
   tasks (submit 1750809660000 (fold fire strandedRun (sampleState [sampleTask 1]))) = []"
proof -
  let ?s0 = "sampleState [sampleTask 1]"
  let ?s1 = "editTask 1 ?s0"
  let ?s2 = "deleteTask 1 ?s1"
  let ?s3 = "onTitleInput (js ''Buy milk'') ?s2"
  have s0: "tasks ?s0 = [sampleTask 1]" "submitListeners ?s0 = [AddTask]"
    by (simp_all add: sampleState_def)
  have "find (\<lambda>t. task_id t = 1) (tasks ?s0) = Some (sampleTask 1)"
    unfolding s0 by (simp add: sampleTask_def)
  note e = editTask_present [OF this]
  have s1: "tasks ?s1 = [sampleTask 1]" "submitListeners ?s1 = [UpdateTask]"
    "editingId ?s1 = Some (Number_toString 1)" "buttonText ?s1 = js ''Actualizar Tarea''"
    by (simp_all add: e s0 addEventListener_def removeEventListener_def)
  have s2: "tasks ?s2 = []" "submitListeners ?s2 = [UpdateTask]"
    "editingId ?s2 = Some (Number_toString 1)" "buttonText ?s2 = js ''Actualizar Tarea''"
    by (simp_all add: deleteTask_frame s1) (simp add: sampleTask_def)
  have s3: "tasks ?s3 = []" "submitListeners ?s3 = [UpdateTask]"
    "editingId ?s3 = Some (Number_toString 1)" "buttonText ?s3 = js ''Actualizar Tarea''"
    "titleValue ?s3 = js ''Buy milk''"
    by (simp_all add: onTitleInput_frame s2)
  have v: "fst (validateTitle ?s3)"
    by (simp add: validateTitle_fst s3 trim_samples) (simp add: js_def)
  have n: "findIndex (\<lambda>t. Some (task_id t) = parsedEditingId ?s3) (tasks ?s3) = None"
    by (simp add: s3)
  note u = updateTask_absent_stays [OF v n]
  let ?s4 = "updateTask ?s3"
  have run: "fold fire strandedRun ?s0 = ?s4"
    by (simp add: strandedRun_def rowTaskId_small submit_def s3 runHandler_def)
  have s4: "tasks ?s4 = []" "submitListeners ?s4 = [UpdateTask]"
    "editingId ?s4 = Some (Number_toString 1)" "buttonText ?s4 = js ''Actualizar Tarea''"
    "titleValue ?s4 = js ''Buy milk''"
    by (simp_all add: u s3)
  have v4: "fst (validateTitle ?s4)"
    by (simp add: validateTitle_fst s4 trim_samples) (simp add: js_def)
  have n4: "findIndex (\<lambda>t. Some (task_id t) = parsedEditingId ?s4) (tasks ?s4) = None"
    by (simp add: s4)
  have "submit 1750809660000 ?s4 = updateTask ?s4"
    by (simp add: submit_def s4 runHandler_def)
  then have "tasks (submit 1750809660000 ?s4) = []"
    by (simp add: updateTask_absent_stays(1) [OF v4 n4] s4)
  with s4 show ?thesis by (simp only: run)
qed

section \<open>Loading\<close>

lemma JSON_parse_empty: "JSON_parse [] = Inl SyntaxError"
  by (simp add: JSON_parse_def)

text \<open>
  C8 as stated fails for the empty string: it is a stored string, it is not JSON, and
  \<^verbatim>\<open>loadTasks\<close> returns normally without touching the task list, because the empty
  string does not pass the test \<^verbatim>\<open>if (storedTasks)\<close>.
\<close>

theorem loadTasks_empty_string_no_throw:
  "storage (freshPage (Some [])) = Some [] \<and>
   JSON_parse [] = Inl SyntaxError \<and>
   loadTasks (freshPage (Some [])) = Returns (freshPage (Some [])) \<and>
   loadTasks (freshPage (Some [])) \<noteq> Throws SyntaxError"
  by (simp add: JSON_parse_empty loadTasks_def freshPage_def)

text \<open>
  C8, amended. \<^verbatim>\<open>loadTasks\<close> parses the stored value only when it is a non-empty string:
  it then throws what \<^verbatim>\<open>JSON.parse\<close> throws when the string is not JSON, and makes the
  parsed task array the task list otherwise. With no stored value, or with the empty
  string stored, it returns with the state as it was; at the start of the page that is
  the empty task list.
\<close>

theorem loadTasks_cases:
  "(storage s = None \<or> storage s = Some [] \<longrightarrow> loadTasks s = Returns s) \<and>
   (\<forall>text. storage s = Some text \<and> text \<noteq> [] \<longrightarrow>
      (\<forall>e. JSON_parse text = Inl e \<longrightarrow> loadTasks s = Throws e) \<and>
      (\<forall>v ts. JSON_parse text = Inr v \<and> tasksOfJson v = Some ts \<longrightarrow>
          loadTasks s = Returns (s\<lparr>tasks := ts\<rparr>))) \<and>
   tasks (freshPage stored) = []"
  by (auto simp: loadTasks_def freshPage_def)

lemma JSON_parse_samples:
  "JSON_parse (js ''[]'') = Inr (JArray [])"
  "JSON_parse (js ''[{'') = Inl SyntaxError"
  by (simp_all add: JSON_parse_def js_def isJSONWhiteSpace_def isDigit_def startValue_def)

theorem loadTasks_cases_witness:
  "loadTasks (freshPage None) = Returns (freshPage None) \<and>
   loadTasks (freshPage (Some (js ''[{''))) = Throws SyntaxError \<and>
   loadTasks ((freshPage (Some (js ''[]'')))\<lparr>tasks := [sampleTask 1]\<rparr>)
     = Returns ((freshPage (Some (js ''[]'')))\<lparr>tasks := []\<rparr>)"
proof -
  have a: "storage (freshPage None) = None" by (simp add: freshPage_def)
  have b: "storage (freshPage (Some (js ''[{''))) = Some (js ''[{'') \<and> js ''[{'' \<noteq> []"
    by (simp add: freshPage_def js_def)
  let ?c = "(freshPage (Some (js ''[]'')))\<lparr>tasks := [sampleTask 1]\<rparr>"
  have c: "storage ?c = Some (js ''[]'') \<and> js ''[]'' \<noteq> []"
    by (simp add: freshPage_def js_def)
  have t: "tasksOfJson (JArray []) = Some []" by (simp add: tasksOfJson_def)
  from loadTasks_cases [of "freshPage None"] a
  have "loadTasks (freshPage None) = Returns (freshPage None)" by blast
  moreover from loadTasks_cases [of "freshPage (Some (js ''[{''))"] b JSON_parse_samples(2)
  have "loadTasks (freshPage (Some (js ''[{''))) = Throws SyntaxError" by blast
  moreover from loadTasks_cases [of ?c] c JSON_parse_samples(1) t
  have "loadTasks ?c = Returns (?c\<lparr>tasks := []\<rparr>)" by blast
  ultimately show ?thesis by simp
qed

section \<open>Reading back what \<^verbatim>\<open>JSON.stringify\<close> wrote\<close>

subsection \<open>Strings\<close>

lemma unat_hexChar: "d < 16 \<Longrightarrow> unat (hexChar d) = (if d < 10 then 48 + d else 87 + d)"
proof (cases "d < 10")
  case True
  have "unat (of_nat (48 + d) :: 16 word) = 48 + d"
    by (rule of_nat_inverse [OF refl]) (use True in simp)
  with True show ?thesis by (simp only: hexChar_def if_True)
next
  case False
  assume "d < 16"
  then have "unat (of_nat (87 + d) :: 16 word) = 87 + d"
    by (intro of_nat_inverse [OF refl]) simp
  with False show ?thesis by (simp only: hexChar_def if_False)
qed

lemma digitValue_hexChar: "d < 16 \<Longrightarrow> digitValue 16 (hexChar d) = Some d"
  by (simp add: digitValue_def word_le_nat_alt unat_hexChar)

lemma hex_digits_sum:
  "(n::nat) < 65536 \<Longrightarrow>
     n div 4096 * 4096 + n div 256 mod 16 * 256 + n div 16 mod 16 * 16 + n mod 16 = n"
proof -
  have e1: "n div 4096 = n div 256 div 16" using div_mult2_eq [of n 256 16] by simp
  have e2: "n div 256 = n div 16 div 16" using div_mult2_eq [of n 16 16] by simp
  have a: "n div 256 = n div 4096 * 16 + n div 256 mod 16" unfolding e1 by simp
  have b: "n div 16 = n div 256 * 16 + n div 16 mod 16" unfolding e2 by simp
  have c: "n = n div 16 * 16 + n mod 16" by simp
  have "n div 4096 * 4096 + n div 256 mod 16 * 256 + n div 16 mod 16 * 16 + n mod 16
          = ((n div 4096 * 16 + n div 256 mod 16) * 16 + n div 16 mod 16) * 16 + n mod 16"
    by (simp add: algebra_simps)
  also have "\<dots> = (n div 256 * 16 + n div 16 mod 16) * 16 + n mod 16" by (simp only: a [symmetric])
  also have "\<dots> = n div 16 * 16 + n mod 16" by (simp only: b [symmetric])
  also have "\<dots> = n" by simp
  finally show ?thesis .
qed

lemma hex4_unicodeEscape:
  "hex4 (hexChar (unat c div 4096)) (hexChar (unat c div 256 mod 16))
        (hexChar (unat c div 16 mod 16)) (hexChar (unat c mod 16)) = Some c"
proof -
  have lt: "unat c < 65536" using unsigned_less [of c] by simp
  then have d: "unat c div 4096 < 16" by simp
  have "hex4 (hexChar (unat c div 4096)) (hexChar (unat c div 256 mod 16))
          (hexChar (unat c div 16 mod 16)) (hexChar (unat c mod 16))
        = Some (of_nat (unat c div 4096 * 4096 + unat c div 256 mod 16 * 256
                        + unat c div 16 mod 16 * 16 + unat c mod 16))"
    by (simp add: hex4_def digitValue_hexChar d)
  also have "\<dots> = Some (of_nat (unat c))" by (simp only: hex_digits_sum [OF lt])
  finally show ?thesis by simp
qed

lemma lexString_plain:
  "\<not> c < 0x20 \<Longrightarrow> c \<noteq> 0x22 \<Longrightarrow> c \<noteq> 0x5C \<Longrightarrow> lexString (c # r) = consUnit c (lexString r)"
  by simp

lemma surrogate_plain:
  "isLeadSurrogate c \<or> isTrailSurrogate c \<Longrightarrow> \<not> c < 0x20 \<and> c \<noteq> 0x22 \<and> c \<noteq> 0x5C"
  by (auto simp: isLeadSurrogate_def isTrailSurrogate_def word_le_nat_alt word_less_nat_alt)

lemma lexString_unicodeEscape: "lexString (unicodeEscape c @ r) = consUnit c (lexString r)"
  by (simp add: unicodeEscape_def hex4_unicodeEscape)

lemma lexString_quoteUnit: "lexString (quoteUnit c @ r) = consUnit c (lexString r)"
  by (simp add: quoteUnit_def lexString_unicodeEscape simpleEscape_def)

lemma lexString_quoteBody: "lexString (quoteBody s @ 0x22 # rest) = Some (s, rest)"
proof (induction s rule: quoteBody.induct)
  case 1
  show ?case by simp
next
  case (2 c)
  show ?case by (simp add: lexString_quoteUnit consUnit_def)
next
  case (3 c d cs)
  show ?case
  proof (cases "isLeadSurrogate c \<and> isTrailSurrogate d")
    case True
    then have pc: "\<not> c < 0x20 \<and> c \<noteq> 0x22 \<and> c \<noteq> 0x5C" and pd: "\<not> d < 0x20 \<and> d \<noteq> 0x22 \<and> d \<noteq> 0x5C"
      using surrogate_plain by blast+
    from True have qb: "quoteBody (c # d # cs) = c # d # quoteBody cs"
      by (simp only: quoteBody.simps simp_thms if_True)
    have "lexString (quoteBody (c # d # cs) @ 0x22 # rest)
            = lexString (c # d # (quoteBody cs @ 0x22 # rest))"
      by (simp only: qb append_Cons)
    also have "\<dots> = consUnit c (lexString (d # (quoteBody cs @ 0x22 # rest)))"
      using pc by (intro lexString_plain) simp_all
    also have "\<dots> = consUnit c (consUnit d (lexString (quoteBody cs @ 0x22 # rest)))"
    proof -
      from pd have "lexString (d # (quoteBody cs @ 0x22 # rest))
                      = consUnit d (lexString (quoteBody cs @ 0x22 # rest))"
        by (intro lexString_plain) simp_all
      then show ?thesis by (rule arg_cong)
    qed
    also have "\<dots> = Some (c # d # cs, rest)"
      using "3.IH"(1) [OF True] by (simp add: consUnit_def)
    finally show ?thesis .
  next
    case False
    then have qb: "quoteBody (c # d # cs) = quoteUnit c @ quoteBody (d # cs)"
      by (simp only: quoteBody.simps if_False)
    have "lexString (quoteBody (c # d # cs) @ 0x22 # rest)
            = lexString (quoteUnit c @ (quoteBody (d # cs) @ 0x22 # rest))"
      by (simp only: qb append_assoc)
    also have "\<dots> = consUnit c (lexString (quoteBody (d # cs) @ 0x22 # rest))"
      by (rule lexString_quoteUnit)
    also have "\<dots> = Some (c # d # cs, rest)"
      using "3.IH"(2) [OF False] by (simp add: consUnit_def)
    finally show ?thesis .
  qed
qed

subsection \<open>Numbers\<close>

lemma natDigits_isDigit: "c \<in> set (natDigits n) \<Longrightarrow> isDigit c"
proof -
  assume "c \<in> set (natDigits n)"
  from natDigits_units [OF this] obtain d where d: "d < 10" and c: "c = digitChar d" by blast
  from digitChar_plain [OF d] show ?thesis unfolding c by simp
qed

lemma digitChar_zero: "d < 10 \<Longrightarrow> (digitChar d = 0x30) = (d = 0)"
  by (simp add: word_unat_eq_iff unat_digitChar)

lemma natDigits_leading_zero:
  "natDigits n = 0x30 # ds \<Longrightarrow> n = 0 \<and> ds = []"
proof (induction n arbitrary: ds rule: natDigits.induct)
  case (1 n)
  show ?case
  proof (cases "n < 10")
    case True
    with "1.prems" have "digitChar n = 0x30" "ds = []" by (simp_all add: natDigits.simps)
    with True show ?thesis by (simp add: digitChar_zero)
  next
    case False
    obtain d es where d: "d < 10" and es: "natDigits (n div 10) = digitChar d # es"
      using natDigits_hd by blast
    from False have "natDigits n = natDigits (n div 10) @ [digitChar (n mod 10)]"
      by (subst natDigits.simps) simp
    with "1.prems" es have "digitChar d = 0x30" by simp
    with es have "natDigits (n div 10) = 0x30 # es" by simp
    from "1.IH" [OF False this] have "n div 10 = 0" by simp
    with False show ?thesis by simp
  qed
qed

lemma takeWhile_natDigits:
  "\<not> isDigit c \<Longrightarrow> takeWhile isDigit (natDigits n @ c # rest) = natDigits n"
  by (simp add: takeWhile_append2 natDigits_isDigit)

lemma dropWhile_natDigits:
  "\<not> isDigit c \<Longrightarrow> dropWhile isDigit (natDigits n @ c # rest) = c # rest"
  by (simp add: dropWhile_append2 natDigits_isDigit)

lemma lexIntDigits_natDigits:
  assumes "\<not> isDigit c"
  shows "lexIntDigits (natDigits n @ c # rest) = natDigits n"
proof -
  obtain d ds where d: "d < 10" and ds: "natDigits n = digitChar d # ds"
    using natDigits_hd by blast
  show ?thesis
  proof (cases "digitChar d = 0x30")
    case True
    with ds have "natDigits n = 0x30 # ds" by simp
    from natDigits_leading_zero [OF this] this have n: "natDigits n = [0x30]" by simp
    show ?thesis by (simp add: lexIntDigits_def n)
  next
    case False
    have "lexIntDigits (natDigits n @ c # rest) = takeWhile isDigit (natDigits n @ c # rest)"
      unfolding ds using False by (simp add: lexIntDigits_def)
    also have "\<dots> = natDigits n" using assms by (rule takeWhile_natDigits)
    finally show ?thesis .
  qed
qed

lemma lexNumber_parts:
  assumes "lexSign cs = (neg, r0)" and "lexIntDigits r0 = ds" and "ds \<noteq> []"
    and "lexFraction (drop (length ds) r0) = Some (fs, r2)" and "lexExponent r2 = Some (ex, r3)"
  shows "lexNumber cs = Some (TNumber neg (digitsValue 10 0 (ds @ fs)) (ex - int (length fs)), r3)"
  using assms by (simp add: lexNumber_def)

text \<open>The digits shown are those of the number without the zeros at its end.\<close>

lemma dropTrailingZeros_decomp:
  "ds = dropTrailingZeros ds @ replicate (length ds - length (dropTrailingZeros ds)) 0x30"
proof -
  let ?P = "\<lambda>c::16 word. c = 0x30"
  let ?tw = "takeWhile ?P (rev ds)"
  have "ds = rev (?tw @ dropWhile ?P (rev ds))"
    by (simp only: takeWhile_dropWhile_id rev_rev_ident)
  then have ds: "ds = dropTrailingZeros ds @ rev ?tw"
    by (simp only: rev_append dropTrailingZeros_def)
  have "\<forall>y\<in>set ?tw. y = 0x30" by (blast dest: set_takeWhileD)
  then have "replicate (length ?tw) 0x30 = ?tw" by (rule replicate_length_same)
  then have "rev ?tw = replicate (length ?tw) 0x30" by (metis rev_replicate)
  moreover from ds have "length ds = length (dropTrailingZeros ds) + length ?tw"
    by (metis length_append length_rev)
  then have "length ?tw = length ds - length (dropTrailingZeros ds)" by simp
  ultimately show ?thesis using ds by simp
qed

lemma dropTrailingZeros_set: "set (dropTrailingZeros ds) \<subseteq> set ds"
  by (auto simp: dropTrailingZeros_def dest: set_dropWhileD)

lemma shownDigits_decomp:
  "natDigits m = shownDigits m @ replicate (length (natDigits m) - length (shownDigits m)) 0x30"
proof (cases "m < 10 ^ 21")
  case True
  then show ?thesis by (simp add: shownDigits_def)
next
  case False
  obtain d ds where ds: "natDigits m = d # ds"
    using natDigits_nonempty [of m] by (cases "natDigits m") auto
  from False have sh: "shownDigits m = d # dropTrailingZeros ds" by (simp add: shownDigits_def ds)
  have "d # ds = d # (dropTrailingZeros ds @ replicate (length ds - length (dropTrailingZeros ds)) 0x30)"
    using dropTrailingZeros_decomp [of ds] by simp
  then show ?thesis unfolding ds sh by simp
qed

lemma shownDigits_isDigit: "c \<in> set (shownDigits m) \<Longrightarrow> isDigit c"
proof -
  assume "c \<in> set (shownDigits m)"
  then have "c \<in> set (shownDigits m @ replicate (length (natDigits m) - length (shownDigits m)) 0x30)"
    by simp
  then have "c \<in> set (natDigits m)" by (simp only: shownDigits_decomp [symmetric])
  then show ?thesis by (rule natDigits_isDigit)
qed

lemma digitValue_isDigit: "isDigit c \<Longrightarrow> \<exists>d. digitValue 10 c = Some d"
proof -
  assume "isDigit c"
  then have r: "0x30 \<le> c \<and> c \<le> 0x39" by (simp add: isDigit_def)
  then have "48 \<le> unat c" "unat c \<le> 57" by (simp_all add: word_le_nat_alt)
  then have "unat c - 48 < 10" by arith
  with r show ?thesis by (simp add: digitValue_def)
qed

lemma digitsValue_append:
  "\<forall>c\<in>set xs. isDigit c \<Longrightarrow>
     digitsValue 10 acc (xs @ ys) = digitsValue 10 (digitsValue 10 acc xs) ys"
proof (induction xs arbitrary: acc)
  case Nil
  show ?case by simp
next
  case (Cons x xs)
  from Cons.prems have "isDigit x" by simp
  from digitValue_isDigit [OF this] obtain d where d: "digitValue 10 x = Some d" ..
  from Cons.prems have "\<forall>c\<in>set xs. isDigit c" by simp
  from Cons.IH [OF this] show ?case by (simp add: d)
qed

lemma digitsValue_zeros: "digitsValue 10 acc (replicate z 0x30) = acc * 10 ^ z"
proof (induction z arbitrary: acc)
  case 0
  show ?case by simp
next
  case (Suc z)
  have "digitValue 10 (0x30 :: 16 word) = Some 0" by (simp add: digitValue_def)
  then show ?case by (simp add: Suc.IH)
qed

lemma significand_exponent:
  "0 \<le> exponent m \<and> significand m * 10 ^ nat (exponent m) = m"
proof -
  let ?z = "length (natDigits m) - length (shownDigits m)"
  have "length (natDigits m) = length (shownDigits m @ replicate ?z (0x30 :: 16 word))"
    by (simp only: shownDigits_decomp [symmetric])
  then have le: "length (shownDigits m) \<le> length (natDigits m)" by simp
  then have ex: "exponent m = int ?z" by (simp add: exponent_def)
  have "m = digitsValue 10 0 (natDigits m)" by (simp only: digitsValue_natDigits_all)
  also have "\<dots> = digitsValue 10 0 (shownDigits m @ replicate ?z 0x30)"
    by (simp only: shownDigits_decomp [symmetric])
  also have "\<dots> = digitsValue 10 (digitsValue 10 0 (shownDigits m)) (replicate ?z 0x30)"
    by (rule digitsValue_append) (simp add: shownDigits_isDigit)
  also have "\<dots> = significand m * 10 ^ ?z" by (simp only: digitsValue_zeros significand_def)
  finally show ?thesis by (simp add: ex)
qed

text \<open>The token that the number's text is read as, below \<open>10 ^ 21\<close> and from there on.\<close>

lemma lexNumber_exponent_form:
  assumes ds: "natDigits m = d # ds" and big: "\<not> m < 10 ^ 21"
    and sg: "lexSign (pre @ unsignedToString m @ 0x2C # rest) = (neg, unsignedToString m @ 0x2C # rest)"
  shows "lexNumber (pre @ unsignedToString m @ 0x2C # rest)
           = Some (TNumber neg (significand m) (exponent m), 0x2C # rest)"
proof -
  let ?k = "length ds"
  let ?fs = "dropTrailingZeros ds"
  let ?E = "0x65 # 0x2B # natDigits ?k @ 0x2C # rest"
  have "d \<in> set (natDigits m)" by (simp add: ds)
  then have dd: "isDigit d" by (rule natDigits_isDigit)
  have dz: "d \<noteq> 0x30"
  proof
    assume "d = 0x30"
    with ds have "natDigits m = 0x30 # ds" by simp
    from natDigits_leading_zero [OF this] have "m = 0" by simp
    with big show False by simp
  qed
  have c: "\<not> isDigit 0x2C" "\<not> isDigit 0x65" "\<not> isDigit 0x2E" by (simp_all add: isDigit_def)
  have fsd: "\<forall>c\<in>set ?fs. isDigit c"
  proof
    fix c assume "c \<in> set ?fs"
    with dropTrailingZeros_set have "c \<in> set ds" by blast
    then have "c \<in> set (natDigits m)" by (simp add: ds)
    then show "isDigit c" by (rule natDigits_isDigit)
  qed
  have str: "unsignedToString m @ 0x2C # rest = d # fractionPart ds @ ?E"
    using big by (simp add: unsignedToString_def ds)
  have sh: "shownDigits m = d # ?fs" using big by (simp add: shownDigits_def ds)
  have ex: "lexExponent ?E = Some (int ?k, 0x2C # rest)"
    by (simp add: lexExponent_def lexExponentSign_def takeWhile_natDigits [OF c(1)]
        dropWhile_natDigits [OF c(1)] natDigits_nonempty digitsValue_natDigits_all)
  have sig: "significand m = digitsValue 10 0 ([d] @ ?fs)" by (simp only: significand_def sh append.simps)
  have expo: "exponent m = int ?k - int (length ?fs)" by (simp add: exponent_def sh ds)
  show ?thesis
  proof (cases "?fs = []")
    case True
    then have body: "d # fractionPart ds @ ?E = d # ?E" by (simp add: fractionPart_def)
    have int_digits: "lexIntDigits (d # ?E) = [d]"
      using dz dd c(2) by (simp add: lexIntDigits_def)
    have fr: "lexFraction (drop (length [d]) (d # ?E)) = Some ([], ?E)"
      by (simp add: lexFraction_def)
    from sg have sg': "lexSign (pre @ unsignedToString m @ 0x2C # rest) = (neg, d # ?E)"
      by (simp only: str body)
    have "lexNumber (pre @ unsignedToString m @ 0x2C # rest)
            = Some (TNumber neg (digitsValue 10 0 ([d] @ [])) (int ?k - int (length ([] :: jsstring))), 0x2C # rest)"
      by (rule lexNumber_parts [OF sg' int_digits _ fr ex]) simp
    with True show ?thesis by (simp only: sig expo)
  next
    case False
    then have body: "d # fractionPart ds @ ?E = d # 0x2E # ?fs @ ?E" by (simp add: fractionPart_def)
    have int_digits: "lexIntDigits (d # 0x2E # ?fs @ ?E) = [d]"
      using dz dd c(3) by (simp add: lexIntDigits_def)
    have tw: "takeWhile isDigit (?fs @ ?E) = ?fs"
      using fsd c(2) by (simp add: takeWhile_append2)
    have dw: "dropWhile isDigit (?fs @ ?E) = ?E"
      using fsd c(2) by (simp add: dropWhile_append2)
    have fr: "lexFraction (drop (length [d]) (d # 0x2E # ?fs @ ?E)) = Some (?fs, ?E)"
      using False by (simp add: lexFraction_def tw dw)
    from sg have sg': "lexSign (pre @ unsignedToString m @ 0x2C # rest) = (neg, d # 0x2E # ?fs @ ?E)"
      by (simp only: str body)
    have "lexNumber (pre @ unsignedToString m @ 0x2C # rest)
            = Some (TNumber neg (digitsValue 10 0 ([d] @ ?fs)) (int ?k - int (length ?fs)), 0x2C # rest)"
      by (rule lexNumber_parts [OF sg' int_digits _ fr ex]) simp
    then show ?thesis by (simp only: sig expo)
  qed
qed

lemma lexNumber_plain_form:
  assumes small: "m < 10 ^ 21"
    and sg: "lexSign (pre @ unsignedToString m @ 0x2C # rest) = (neg, unsignedToString m @ 0x2C # rest)"
  shows "lexNumber (pre @ unsignedToString m @ 0x2C # rest)
           = Some (TNumber neg (significand m) (exponent m), 0x2C # rest)"
proof -
  have c: "\<not> isDigit 0x2C" by (simp add: isDigit_def)
  have str: "unsignedToString m = natDigits m" using small by (rule unsignedToString_small)
  have fr: "lexFraction (drop (length (natDigits m)) (natDigits m @ 0x2C # rest)) = Some ([], 0x2C # rest)"
    by (simp add: lexFraction_def)
  have ex: "lexExponent (0x2C # rest) = Some (0, 0x2C # rest)" by (simp add: lexExponent_def)
  from sg have sg': "lexSign (pre @ unsignedToString m @ 0x2C # rest) = (neg, natDigits m @ 0x2C # rest)"
    by (simp only: str)
  have "lexNumber (pre @ unsignedToString m @ 0x2C # rest)
          = Some (TNumber neg (digitsValue 10 0 (natDigits m @ [])) (0 - int (length ([] :: jsstring))), 0x2C # rest)"
    by (rule lexNumber_parts [OF sg' lexIntDigits_natDigits [OF c] natDigits_nonempty fr ex])
  with small show ?thesis by (simp add: significand_def exponent_def shownDigits_def)
qed

lemma lexNumber_unsignedToString:
  assumes "lexSign (pre @ unsignedToString m @ 0x2C # rest) = (neg, unsignedToString m @ 0x2C # rest)"
  shows "lexNumber (pre @ unsignedToString m @ 0x2C # rest)
           = Some (TNumber neg (significand m) (exponent m), 0x2C # rest)"
proof (cases "m < 10 ^ 21")
  case True
  from this assms show ?thesis by (rule lexNumber_plain_form)
next
  case False
  obtain d ds where ds: "natDigits m = d # ds"
    using natDigits_nonempty [of m] by (cases "natDigits m") auto
  from ds False assms show ?thesis by (rule lexNumber_exponent_form)
qed

lemma unsignedToString_hd: "\<exists>d<10. \<exists>r. unsignedToString m = digitChar d # r"
proof -
  obtain d ds where d: "d < 10" and ds: "natDigits m = digitChar d # ds"
    using natDigits_hd by blast
  show ?thesis
  proof (cases "m < 10 ^ 21")
    case True
    with d ds show ?thesis by (auto simp: unsignedToString_def)
  next
    case False
    then have "unsignedToString m
                 = digitChar d # fractionPart ds @ [0x65, 0x2B] @ natDigits (length ds)"
      by (simp add: unsignedToString_def ds)
    with d show ?thesis by blast
  qed
qed

lemma lex_Number_toString:
  "tokenize (Number_toString i @ 0x2C # rest)
     = map_option (Cons (TNumber (i < 0) (significand (nat \<bar>i\<bar>)) (exponent (nat \<bar>i\<bar>))))
         (tokenize (0x2C # rest))"
proof (cases "i < 0")
  case True
  let ?m = "nat (- i)"
  have "lexSign ([0x2D] @ unsignedToString ?m @ 0x2C # rest) = (True, unsignedToString ?m @ 0x2C # rest)"
    by (simp add: lexSign_def)
  from lexNumber_unsignedToString [OF this]
  have ln: "lexNumber (0x2D # unsignedToString ?m @ 0x2C # rest)
              = Some (TNumber True (significand ?m) (exponent ?m), 0x2C # rest)"
    by simp
  have "tokenize (0x2D # unsignedToString ?m @ 0x2C # rest)
          = map_option (Cons (TNumber True (significand ?m) (exponent ?m))) (tokenize (0x2C # rest))"
    by (subst tokenize.simps) (simp add: isJSONWhiteSpace_def ln)
  with True show ?thesis by (simp add: Number_toString_def)
next
  case False
  let ?m = "nat i"
  obtain d r where d: "d < 10" and r: "unsignedToString ?m = digitChar d # r"
    using unsignedToString_hd by blast
  from digitChar_plain [OF d] have dg: "isDigit (digitChar d)" and nm: "digitChar d \<noteq> 0x2D"
    by simp_all
  from dg have p: "\<not> isJSONWhiteSpace (digitChar d)" "digitChar d \<noteq> 0x5B" "digitChar d \<noteq> 0x5D"
    "digitChar d \<noteq> 0x7B" "digitChar d \<noteq> 0x7D" "digitChar d \<noteq> 0x2C" "digitChar d \<noteq> 0x3A"
    "digitChar d \<noteq> 0x22"
    by (auto simp: isDigit_def isJSONWhiteSpace_def word_le_nat_alt)
  have "lexSign ([] @ unsignedToString ?m @ 0x2C # rest) = (False, unsignedToString ?m @ 0x2C # rest)"
    unfolding r using nm by (simp add: lexSign_def)
  from lexNumber_unsignedToString [OF this]
  have ln: "lexNumber (digitChar d # r @ 0x2C # rest)
              = Some (TNumber False (significand ?m) (exponent ?m), 0x2C # rest)"
    by (simp add: r)
  have "tokenize (digitChar d # r @ 0x2C # rest)
          = map_option (Cons (TNumber False (significand ?m) (exponent ?m))) (tokenize (0x2C # rest))"
    by (subst tokenize.simps) (simp add: p dg ln)
  with False show ?thesis by (simp add: Number_toString_def r)
qed

subsection \<open>Tokens of the task array\<close>

lemma tokenize_QuoteJSONString:
  "tokenize (QuoteJSONString s @ rest) = map_option (Cons (TString s)) (tokenize rest)"
proof -
  have "tokenize (0x22 # (quoteBody s @ 0x22 # rest)) = map_option (Cons (TString s)) (tokenize rest)"
    by (subst tokenize.simps) (simp add: isJSONWhiteSpace_def lexString_quoteBody)
  then show ?thesis by (simp add: QuoteJSONString_def)
qed

lemma tokenize_key_id:
  "tokenize (js ''{\"id\":'' @ r) = map_option (\<lambda>ts. TLBrace # TString (js ''id'') # TColon # ts) (tokenize r)"
  by (cases "tokenize r") (simp_all add: js_def isJSONWhiteSpace_def consUnit_def)

lemma tokenize_key_title:
  "tokenize (js '',\"title\":'' @ r) = map_option (\<lambda>ts. TComma # TString (js ''title'') # TColon # ts) (tokenize r)"
  by (cases "tokenize r") (simp_all add: js_def isJSONWhiteSpace_def consUnit_def)

lemma tokenize_key_description:
  "tokenize (js '',\"description\":'' @ r)
     = map_option (\<lambda>ts. TComma # TString (js ''description'') # TColon # ts) (tokenize r)"
  by (cases "tokenize r") (simp_all add: js_def isJSONWhiteSpace_def consUnit_def)

lemma tokenize_key_completed:
  "tokenize (js '',\"completed\":'' @ r)
     = map_option (\<lambda>ts. TComma # TString (js ''completed'') # TColon # ts) (tokenize r)"
  by (cases "tokenize r") (simp_all add: js_def isJSONWhiteSpace_def consUnit_def)

lemma tokenize_flag:
  "tokenize ((if b then js ''true'' else js ''false'') @ js ''}'' @ r)
     = map_option (\<lambda>ts. (if b then TTrue else TFalse) # TRBrace # ts) (tokenize r)"
  by (cases "tokenize r") (simp_all add: js_def isJSONWhiteSpace_def isDigit_def)

lemma tokenize_id_value:
  "tokenize (Number_toString i @ js '',\"title\":'' @ r)
     = map_option (\<lambda>ts. TNumber (i < 0) (significand (nat \<bar>i\<bar>)) (exponent (nat \<bar>i\<bar>)) # TComma # TString (js ''title'') # TColon # ts)
         (tokenize r)"
proof -
  obtain k where k: "js '',\"title\":'' @ r = 0x2C # k" by (simp add: js_def)
  have "tokenize (Number_toString i @ js '',\"title\":'' @ r)
          = map_option (Cons (TNumber (i < 0) (significand (nat \<bar>i\<bar>)) (exponent (nat \<bar>i\<bar>))))
              (tokenize (js '',\"title\":'' @ r))"
    unfolding k by (rule lex_Number_toString)
  then show ?thesis by (cases "tokenize r") (simp_all add: tokenize_key_title)
qed

lemma tokenize_serializeTask:
  "tokenize (serializeTask t @ rest) = map_option ((@) (tokensOfTask t)) (tokenize rest)"
  by (cases "tokenize rest")
    (simp_all add: serializeTask_def tokensOfTask_def tokenize_key_id tokenize_id_value
      tokenize_QuoteJSONString tokenize_key_description tokenize_key_completed tokenize_flag)

lemma tokenize_serializeElements:
  "tokenize (serializeElements ts @ rest) = map_option ((@) (tokensOfElements ts)) (tokenize rest)"
proof (induction ts arbitrary: rest rule: serializeElements.induct)
  case 1
  show ?case by (simp add: option.map_ident)
next
  case (2 t)
  show ?case by (simp add: tokenize_serializeTask)
next
  case (3 t u ts)
  have "tokenize (serializeElements (t # u # ts) @ rest)
          = tokenize (serializeTask t @ (0x2C # (serializeElements (u # ts) @ rest)))"
    by simp
  also have "\<dots> = map_option ((@) (tokensOfTask t)) (tokenize (0x2C # (serializeElements (u # ts) @ rest)))"
    by (rule tokenize_serializeTask)
  also have "tokenize (0x2C # (serializeElements (u # ts) @ rest))
          = map_option (Cons TComma) (tokenize (serializeElements (u # ts) @ rest))"
    by (subst tokenize.simps) (simp add: isJSONWhiteSpace_def)
  also have "tokenize (serializeElements (u # ts) @ rest)
          = map_option ((@) (tokensOfElements (u # ts))) (tokenize rest)"
    by (rule "3.IH")
  finally show ?case by (cases "tokenize rest") simp_all
qed

lemma tokenize_JSON_stringify:
  "tokenize (JSON_stringify ts) = Some (TLBracket # tokensOfElements ts @ [TRBracket])"
proof -
  have "tokenize (0x5D # []) = Some [TRBracket]"
    by (subst tokenize.simps) (simp add: isJSONWhiteSpace_def)
  then have "tokenize (serializeElements ts @ [0x5D]) = Some (tokensOfElements ts @ [TRBracket])"
    by (simp add: tokenize_serializeElements)
  then show ?thesis
    unfolding JSON_stringify_def by (subst tokenize.simps) (simp add: isJSONWhiteSpace_def)
qed

subsection \<open>The value built from the tokens\<close>

lemma run_append: "run (ts @ us) c = (case run ts c of None \<Rightarrow> None | Some c' \<Rightarrow> run us c')"
  by (induction ts arbitrary: c) (simp_all split: option.splits)

lemma run_tokensOfTask:
  "m = Value \<or> m = ValueOrEnd \<Longrightarrow>
     run (tokensOfTask t) (m, FArray es # st) = Some (CommaOrEnd, FArray (jsonOfTask t # es) # st)"
  by (auto simp: tokensOfTask_def jsonOfTask_def startValue_def)

lemma run_tokensOfElements:
  "ts \<noteq> [] \<Longrightarrow> m = Value \<or> m = ValueOrEnd \<Longrightarrow>
     run (tokensOfElements ts) (m, FArray es # st)
       = Some (CommaOrEnd, FArray (rev (map jsonOfTask ts) @ es) # st)"
proof (induction ts arbitrary: m es rule: tokensOfElements.induct)
  case 1
  then show ?case by simp
next
  case (2 t)
  then show ?case by (simp add: run_tokensOfTask)
next
  case (3 t u ts)
  have "run (tokensOfElements (t # u # ts)) (m, FArray es # st)
          = run (TComma # tokensOfElements (u # ts)) (CommaOrEnd, FArray (jsonOfTask t # es) # st)"
    using "3.prems"(2) by (simp add: run_append run_tokensOfTask)
  also have "\<dots> = run (tokensOfElements (u # ts)) (Value, FArray (jsonOfTask t # es) # st)"
    by simp
  also have "\<dots> = Some (CommaOrEnd, FArray (rev (map jsonOfTask (u # ts)) @ jsonOfTask t # es) # st)"
    by (rule "3.IH") simp_all
  finally show ?case by simp
qed

lemma run_array:
  "run (TLBracket # tokensOfElements ts @ [TRBracket]) (Value, [])
     = Some (Done (JArray (map jsonOfTask ts)), [])"
proof (cases "ts = []")
  case True
  then show ?thesis by (simp add: startValue_def)
next
  case False
  have "run (TLBracket # tokensOfElements ts @ [TRBracket]) (Value, [])
          = run (tokensOfElements ts @ [TRBracket]) (ValueOrEnd, [FArray []])"
    by (simp add: startValue_def)
  also have "\<dots> = run [TRBracket] (CommaOrEnd, [FArray (rev (map jsonOfTask ts))])"
    using run_tokensOfElements [OF False, of ValueOrEnd "[]" "[]"] by (simp add: run_append)
  also have "\<dots> = Some (Done (JArray (map jsonOfTask ts)), [])" by simp
  finally show ?thesis .
qed

lemma JSON_parse_stringify: "JSON_parse (JSON_stringify ts) = Inr (JArray (map jsonOfTask ts))"
  unfolding JSON_parse_def tokenize_JSON_stringify option.case run_array by simp

subsection \<open>The tasks in the value\<close>

lemma integerOfNumber_int:
  "integerOfNumber (i < 0) (significand (nat \<bar>i\<bar>)) (exponent (nat \<bar>i\<bar>)) = Some i"
proof -
  let ?m = "nat \<bar>i\<bar>"
  from significand_exponent [of ?m]
  have e: "0 \<le> exponent ?m" and v: "significand ?m * 10 ^ nat (exponent ?m) = ?m" by simp_all
  from v have "int (significand ?m * 10 ^ nat (exponent ?m)) = int ?m" by (rule arg_cong)
  then have "int (significand ?m) * 10 ^ nat (exponent ?m) = \<bar>i\<bar>" by simp
  with e show ?thesis by (simp add: integerOfNumber_def)
qed

lemma taskOfJson_jsonOfTask: "taskOfJson (jsonOfTask t) = Some t"
  by (simp add: taskOfJson_def jsonOfTask_def integerOfNumber_int js_def)

lemma tasksOfValues_map: "tasksOfValues (map jsonOfTask ts) = Some ts"
  by (induction ts) (simp_all add: taskOfJson_jsonOfTask)

lemma JSON_stringify_nonempty: "JSON_stringify ts \<noteq> []"
  by (simp add: JSON_stringify_def)

lemma loadTasks_saveTasks: "loadTasks (saveTasks s) = Returns (saveTasks s)"
  by (simp add: loadTasks_def saveTasks_def JSON_stringify_nonempty JSON_parse_stringify
      tasksOfJson_def tasksOfValues_map)

section \<open>Persistence across a reload\<close>

lemma reloaded_stringify: "reloaded (Some (JSON_stringify ts)) = Some ts"
  by (simp add: reloaded_def main_def loadTasks_def freshPage_def JSON_stringify_nonempty
      JSON_parse_stringify tasksOfJson_def tasksOfValues_map)

lemma main_Returns:
  "main stored = Returns s0 \<Longrightarrow> storage s0 = stored \<and> reloaded stored = Some (tasks s0)"
  by (auto simp: reloaded_def main_def loadTasks_def freshPage_def Let_def
      split: option.splits if_splits sum.splits)

lemma inStep_preserves:
  "inStep s s' \<Longrightarrow> reloaded (storage s) = Some (tasks s) \<Longrightarrow> reloaded (storage s') = Some (tasks s')"
  by (auto simp: inStep_def reloaded_stringify)

lemma inStep_refl: "inStep s s"
  by (simp add: inStep_def)

lemma inStep_addTask: "inStep s (addTask now s)"
proof (cases "fst (validateTitle s)")
  case True
  from addTask_valid(2) [OF True] show ?thesis by (simp add: inStep_def)
next
  case False
  then show ?thesis by (simp add: inStep_def addTask_invalid validateTitle_frame)
qed

lemma inStep_updateTask: "inStep s (updateTask s)"
proof (cases "fst (validateTitle s)")
  case False
  then show ?thesis by (simp add: inStep_def updateTask_invalid validateTitle_frame)
next
  case True
  show ?thesis
  proof (cases "findIndex (\<lambda>t. Some (task_id t) = parsedEditingId s) (tasks s)")
    case None
    from updateTask_absent_stays(1,2) [OF True None] show ?thesis by (simp add: inStep_def)
  next
    case (Some k)
    from updateTask_present(1,2) [OF True Some] show ?thesis by (simp add: inStep_def)
  qed
qed

lemma inStep_saveTasks: "inStep s (saveTasks s)"
  by (simp add: inStep_def saveTasks_def)

lemma inStep_deleteTask: "inStep s (deleteTask i s)"
  by (simp add: inStep_def deleteTask_def saveTasks_def)

lemma inStep_toggleCompleteTask: "inStep s (toggleCompleteTask i s)"
  by (simp add: inStep_def toggleCompleteTask_def saveTasks_def split: option.splits)

lemma inStep_editTask: "inStep s (editTask i s)"
proof (cases "find (\<lambda>t. task_id t = i) (tasks s)")
  case None
  then show ?thesis by (simp add: inStep_def editTask_def)
next
  case (Some t)
  from editTask_present(1,2) [OF Some] show ?thesis by (simp add: inStep_def)
qed

lemma inStep_runHandler: "inStep s (runHandler h now s)"
  by (cases h) (simp_all add: runHandler_def inStep_addTask inStep_updateTask)

lemma dispatch_reloaded:
  "reloaded (storage s) = Some (tasks s) \<Longrightarrow>
     reloaded (storage (dispatch hs now s)) = Some (tasks (dispatch hs now s))"
proof (induction hs arbitrary: s)
  case Nil
  then show ?case by simp
next
  case (Cons h hs)
  let ?s' = "if h \<in> set (submitListeners s) then runHandler h now s else s"
  have "inStep s ?s'" by (simp add: inStep_runHandler inStep_refl)
  from inStep_preserves [OF this Cons.prems] have "reloaded (storage ?s') = Some (tasks ?s')" .
  from Cons.IH [OF this] show ?case by simp
qed

lemma fire_reloaded:
  assumes "reloaded (storage s) = Some (tasks s)"
  shows "reloaded (storage (fire e s)) = Some (tasks (fire e s))"
proof (cases e)
  case (TitleInput v)
  with assms show ?thesis by (simp add: onTitleInput_frame)
next
  case (DescriptionInput v)
  with assms show ?thesis by (simp add: onDescriptionInput_frame)
next
  case TitleBlur
  with assms show ?thesis by (simp add: onTitleBlur_def validateTitle_frame)
next
  case TitleFocus
  with assms show ?thesis by (simp add: focusTitle_frame)
next
  case (Submit now)
  with assms show ?thesis by (simp add: submit_def dispatch_reloaded)
next
  case (EditClick i)
  show ?thesis
  proof (cases "rowTaskId i")
    case None
    with EditClick assms show ?thesis by simp
  next
    case (Some j)
    with EditClick inStep_preserves [OF inStep_editTask assms, of j] show ?thesis by simp
  qed
next
  case (DeleteClick i)
  show ?thesis
  proof (cases "rowTaskId i")
    case None
    with DeleteClick inStep_preserves [OF inStep_saveTasks assms] show ?thesis by simp
  next
    case (Some j)
    with DeleteClick inStep_preserves [OF inStep_deleteTask assms, of j] show ?thesis by simp
  qed
next
  case (ToggleClick i)
  show ?thesis
  proof (cases "rowTaskId i")
    case None
    with ToggleClick assms show ?thesis by simp
  next
    case (Some j)
    with ToggleClick inStep_preserves [OF inStep_toggleCompleteTask assms, of j] show ?thesis
      by simp
  qed
qed

lemma fold_fire_reloaded:
  "reloaded (storage s) = Some (tasks s) \<Longrightarrow>
     reloaded (storage (fold fire es s)) = Some (tasks (fold fire es s))"
  by (induction es arbitrary: s) (simp_all add: fire_reloaded)

text \<open>The pages used in the examples are pages as \<^verbatim>\<open>main\<close> starts them.\<close>

lemma sampleState_started: "main (Some (JSON_stringify ts)) = Returns (sampleState ts)"
  by (simp add: main_def loadTasks_def JSON_stringify_nonempty JSON_parse_stringify
      tasksOfJson_def tasksOfValues_map sampleState_def freshPage_def addEventListener_def)

lemma startState_started: "main None = Returns startState"
  by (simp add: main_def loadTasks_def freshPage_def startState_def addEventListener_def)

text \<open>
  C5. Saving and then loading gives back the state that was saved, task for task. And
  on a page that has started, after any sequence of events (typing, submissions that
  create or update, edit, delete and complete clicks), a reload of the page from what is
  then stored starts with exactly the task list the page had: the same ids, titles,
  descriptions and flags in the same order.
\<close>

theorem reload_reproduces_tasks:
  "loadTasks (saveTasks s) = Returns (saveTasks s) \<and>
   (\<forall>s0. main stored = Returns s0 \<longrightarrow>
      (\<exists>s'. main (storage (fold fire es s0)) = Returns s' \<and> tasks s' = tasks (fold fire es s0)))"
proof -
  have "\<exists>s'. main (storage (fold fire es s0)) = Returns s' \<and> tasks s' = tasks (fold fire es s0)"
    if "main stored = Returns s0" for s0
  proof -
    from main_Returns [OF that] have "reloaded (storage s0) = Some (tasks s0)" by simp
    then have "reloaded (storage (fold fire es s0)) = Some (tasks (fold fire es s0))"
      by (rule fold_fire_reloaded)
    then show ?thesis by (auto simp: reloaded_def split: outcome.splits)
  qed
  with loadTasks_saveTasks show ?thesis by blast
qed

theorem reload_reproduces_tasks_witness:
  "main None = Returns startState \<and>
   (\<exists>s'. main (storage (fold fire groceriesRun startState)) = Returns s' \<and>
         tasks s' = tasks (fold fire groceriesRun startState))"
proof -
  have h: "main None = Returns startState"
    by (simp add: main_def loadTasks_def freshPage_def startState_def addEventListener_def)
  from reload_reproduces_tasks [of startState None groceriesRun] h show ?thesis by blast
qed

end
